theory Spec2Isabelle
  imports Complex_Main
begin

section \<open>JavaScript values read from a request\<close>

text \<open>
  The route handlers read their input with \<^verbatim>\<open>await request.json()\<close> and destructure
  it. A parsed JSON document is a value of type \<open>json\<close>; a JavaScript variable bound by
  destructuring holds a \<open>json option\<close>, where \<open>None\<close> is \<^verbatim>\<open>undefined\<close> (the key is
  missing).
\<close>

datatype json =
    JNull
  | JBool bool
  | JNum rat
  | JStr string
  | JArr "json list"
  | JObj "(string \<times> json) list"

text \<open>JavaScript truthiness, as the operators \<^verbatim>\<open>!x\<close> and \<^verbatim>\<open>x || y\<close> read it.\<close>

fun truthy :: "json option \<Rightarrow> bool" where
  "truthy None = False"
| "truthy (Some JNull) = False"
| "truthy (Some (JBool b)) = b"
| "truthy (Some (JNum n)) = (n \<noteq> 0)"
| "truthy (Some (JStr s)) = (s \<noteq> [])"
| "truthy (Some (JArr xs)) = True"
| "truthy (Some (JObj kvs)) = True"

text \<open>
  \<^verbatim>\<open>const { k } = body\<close> for a body other than \<^verbatim>\<open>null\<close>: the own property \<open>k\<close> of an
  object (the last occurrence of a duplicated key wins in \<^verbatim>\<open>JSON.parse\<close>), and
  \<^verbatim>\<open>undefined\<close> on a primitive or an array, which have no property of the names the
  handlers read. Destructuring \<^verbatim>\<open>null\<close> throws a TypeError; the handlers below treat
  that case before they call \<open>field\<close>.
\<close>

fun field :: "json \<Rightarrow> string \<Rightarrow> json option" where
  "field (JObj kvs) k = map_of (rev kvs) k"
| "field b k = None"

text \<open>\<^verbatim>\<open>const { k = d } = body\<close>: the default applies to \<^verbatim>\<open>undefined\<close> only.\<close>

definition field_default :: "json \<Rightarrow> string \<Rightarrow> json \<Rightarrow> json" where
  "field_default b k d = (case field b k of None \<Rightarrow> d | Some v \<Rightarrow> v)"

text \<open>\<^verbatim>\<open>x || d\<close> where \<open>d\<close> is a JSON value.\<close>

definition or_else :: "json option \<Rightarrow> json \<Rightarrow> json" where
  "or_else x d = (case x of None \<Rightarrow> d | Some v \<Rightarrow> if truthy (Some v) then v else d)"

section \<open>The database and the record of external calls\<close>

text \<open>
  The tables of the migrations (PushToken, NotificationLog, ErrorLog). Primary keys are
  generated strings in the database; only their equality is observed, and they are natural
  numbers here, drawn from the counter \<open>nextId\<close>. Times are natural numbers. Columns the
  handlers pass through unchanged from a request keep the type \<open>json\<close>. The columns of
  NotificationLog that no handler ever sets (receiptId, errorCode, errorMessage,
  deliveredAt, readAt) stay NULL and are left out.
\<close>

record pushToken =
  pt_id :: nat
  pt_token :: string
  pt_platform :: json
  pt_deviceInfo :: json
  pt_isActive :: bool
  pt_createdAt :: nat
  pt_updatedAt :: nat
  pt_lastUsedAt :: nat

record notificationLog =
  nl_id :: nat
  nl_tokenId :: "nat option"
  nl_title :: "json option"
  nl_body :: "json option"
  nl_data :: json
  nl_status :: string
  nl_ticketId :: "string option"
  nl_sentAt :: nat

record errorLog =
  el_id :: nat
  el_tokenId :: json
  el_platform :: json
  el_errorType :: "json option"
  el_message :: "json option"
  el_stackTrace :: json
  el_context :: json
  el_appVersion :: json
  el_createdAt :: nat

text \<open>An outbound Expo push message, as the broadcast handler builds it.\<close>

record message =
  m_to :: string
  m_sound :: json
  m_title :: "json option"
  m_body :: "json option"
  m_data :: json
  m_badge :: "json option"
  m_priority :: json

text \<open>A delivery ticket of the gateway, and what a rejected call throws.\<close>

datatype ticket = TicketOk string | TicketError string

datatype exn = PrismaError | ExpoError string

text \<open>
  Every call a handler makes on the database client or the gateway, in the order the
  handler makes it.
\<close>

datatype call =
    PushToken_findMany
  | PushToken_findUnique string
  | PushToken_update string
  | PushToken_create string
  | PushToken_updateMany_lastUsedAt "nat list"
  | PushToken_updateMany_isActive "json option"
  | NotificationLog_create "nat option"
  | Expo_send "message list"
  | ErrorLog_create
  | ErrorLog_findMany
  | ErrorLog_count
  | ErrorLog_groupBy

record world =
  pushTokens :: "pushToken list"
  notificationLogs :: "notificationLog list"
  errorLogs :: "errorLog list"
  nextId :: nat
  calls :: "call list"

text \<open>
  What the handlers do not decide. \<open>isExpoPushToken\<close> is the address-format check of
  expo-server-sdk on a string, \<open>chunkSize\<close> the gateway's batch bound (100 in the SDK),
  \<open>expoSend k chunk\<close> the outcome of the \<open>k\<close>-th \<^verbatim>\<open>sendPushNotificationsAsync\<close> call of a
  request (tickets, or the error it throws), \<open>prismaRejects k\<close> whether the database call
  made when \<open>k\<close> calls are already on record rejects (the store is unreachable, or the
  client refuses the arguments), and \<open>now\<close> the clock read by \<^verbatim>\<open>new Date()\<close> and by the
  column defaults.
\<close>

record env =
  isExpoPushToken :: "string \<Rightarrow> bool"
  chunkSize :: nat
  expoSend :: "nat \<Rightarrow> message list \<Rightarrow> exn + ticket list"
  prismaRejects :: "nat \<Rightarrow> bool"
  now :: nat

definition rejected :: "env \<Rightarrow> world \<Rightarrow> bool" where
  "rejected e w = prismaRejects e (length (calls w))"

definition record_call :: "call \<Rightarrow> world \<Rightarrow> world" where
  "record_call c w = w\<lparr>calls := calls w @ [c]\<rparr>"

text \<open>A handler's answer: \<^verbatim>\<open>NextResponse.json({ error }, { status })\<close>, or a body with
  status 200.\<close>

datatype 'a response = Failure nat string | Success 'a

section \<open>The database client and the gateway client\<close>

text \<open>
  Each database call is put on record and consults \<open>rejected\<close> first; a rejected call
  changes no table. \<^verbatim>\<open>prisma.pushToken.findMany({ where: { isActive: true } })\<close>:
\<close>

definition pushToken_findMany :: "env \<Rightarrow> world \<Rightarrow> (exn + pushToken list) \<times> world" where
  "pushToken_findMany e w =
     (if rejected e w then Inl PrismaError else Inr (filter pt_isActive (pushTokens w)),
      record_call PushToken_findMany w)"

text \<open>
  \<^verbatim>\<open>prisma.notificationLog.create({ data: { tokenId, title, body, data, status, ticketId } })\<close>;
  the key and \<open>sentAt\<close> are the column defaults.
\<close>

definition notificationLog_create ::
  "env \<Rightarrow> nat option \<Rightarrow> json option \<Rightarrow> json option \<Rightarrow> json \<Rightarrow> string \<Rightarrow> string option \<Rightarrow> world
     \<Rightarrow> (exn + notificationLog) \<times> world" where
  "notificationLog_create e tokenId title body dat status ticketId w =
     (let c = NotificationLog_create tokenId;
          r = \<lparr>nl_id = nextId w, nl_tokenId = tokenId, nl_title = title, nl_body = body,
               nl_data = dat, nl_status = status, nl_ticketId = ticketId, nl_sentAt = now e\<rparr>
      in if rejected e w then (Inl PrismaError, record_call c w)
         else (Inr r, record_call c
                 (w\<lparr>notificationLogs := notificationLogs w @ [r], nextId := Suc (nextId w)\<rparr>)))"

text \<open>
  \<^verbatim>\<open>prisma.pushToken.updateMany({ where: { id: { in: ids } }, data: { lastUsedAt: new Date() } })\<close>;
  \<open>updatedAt\<close> follows every update. The result is the number of rows matched.
\<close>

definition touch :: "env \<Rightarrow> nat list \<Rightarrow> pushToken \<Rightarrow> pushToken" where
  "touch e ids t =
     (if pt_id t \<in> set ids then t\<lparr>pt_lastUsedAt := now e, pt_updatedAt := now e\<rparr> else t)"

definition pushToken_updateMany_lastUsedAt ::
  "env \<Rightarrow> nat list \<Rightarrow> world \<Rightarrow> (exn + nat) \<times> world" where
  "pushToken_updateMany_lastUsedAt e ids w =
     (let c = PushToken_updateMany_lastUsedAt ids
      in if rejected e w then (Inl PrismaError, record_call c w)
         else (Inr (length (filter (\<lambda>t. pt_id t \<in> set ids) (pushTokens w))),
               record_call c (w\<lparr>pushTokens := map (touch e ids) (pushTokens w)\<rparr>)))"

text \<open>
  Modelled from the spec: \<^verbatim>\<open>expo.chunkPushNotifications\<close> belongs to expo-server-sdk, which
  is not part of the repository. It is the pure, order-preserving partition of the message
  list into batches of at most \<open>B\<close> messages, every batch but the last holding exactly
  \<open>B\<close> (each message of this handler has a single recipient). A bound of 0 is no
  gateway's; the partition is then empty.
\<close>

function chunkPushNotifications :: "nat \<Rightarrow> 'a list \<Rightarrow> 'a list list" where
  "chunkPushNotifications B xs =
     (if B = 0 \<or> xs = [] then [] else take B xs # chunkPushNotifications B (drop B xs))"
  by pat_completeness auto
termination
  by (relation "measure (\<lambda>(B, xs). length xs)") auto

declare chunkPushNotifications.simps [simp del]

section \<open>The broadcast handler\<close>

text \<open>The body of a 200 answer of the broadcast route; \<open>None\<close> is a key that is absent
  (a key bound to \<^verbatim>\<open>undefined\<close> is dropped when the answer is serialised).\<close>

record sendResult =
  send_success :: bool
  send_message :: string
  sent :: nat
  tickets :: "ticket list option"
  errors :: "exn list option"

text \<open>The decimal digits of a number, for the template literal of the message.\<close>

fun digits :: "nat \<Rightarrow> string" where
  "digits n =
     (if n < 10 then [''0123456789'' ! n]
      else digits (n div 10) @ [''0123456789'' ! (n mod 10)])"

declare digits.simps [simp del]

text \<open>
  The loop \<^verbatim>\<open>for (const chunk of chunks) { try { ... } catch (error) { ... } }\<close>: \<open>k\<close> counts
  the gateway calls made so far; tickets of a batch that is accepted are appended, the
  error of a batch that throws is appended, and the loop goes on either way.
\<close>

fun sendChunks ::
  "env \<Rightarrow> nat \<Rightarrow> message list list \<Rightarrow> ticket list \<times> exn list \<times> world
     \<Rightarrow> ticket list \<times> exn list \<times> world" where
  "sendChunks e k [] st = st"
| "sendChunks e k (chunk # rest) (tks, errs, w) =
     (case expoSend e k chunk of
        Inr ticketChunk \<Rightarrow>
          sendChunks e (Suc k) rest (tks @ ticketChunk, errs, record_call (Expo_send chunk) w)
      | Inl error \<Rightarrow>
          sendChunks e (Suc k) rest (tks, errs @ [error], record_call (Expo_send chunk) w))"

text \<open>
  \<^verbatim>\<open>tokens.map(tokenRecord => prisma.notificationLog.create(...))\<close> followed by
  \<^verbatim>\<open>Promise.allSettled\<close>: one create per token record of the snapshot, started in list
  order; a create that rejects is ignored. The writes are applied in the order they are
  started.
\<close>

fun logNotifications ::
  "env \<Rightarrow> json option \<Rightarrow> json option \<Rightarrow> json \<Rightarrow> pushToken list \<Rightarrow> world \<Rightarrow> world" where
  "logNotifications e title body dat [] w = w"
| "logNotifications e title body dat (tokenRecord # rest) w =
     logNotifications e title body dat rest
       (snd (notificationLog_create e (Some (pt_id tokenRecord)) title body dat ''sent'' None w))"

definition buildMessage ::
  "json \<Rightarrow> json option \<Rightarrow> json option \<Rightarrow> json \<Rightarrow> json option \<Rightarrow> json \<Rightarrow> pushToken \<Rightarrow> message" where
  "buildMessage sound title body dat badge priority tokenRecord =
     \<lparr>m_to = pt_token tokenRecord, m_sound = sound, m_title = title, m_body = body,
      m_data = dat, m_badge = badge, m_priority = priority\<rparr>"

text \<open>
  The route \<^verbatim>\<open>POST\<close> of the broadcast. The request is \<open>None\<close> when \<^verbatim>\<open>request.json()\<close>
  rejects; that and the TypeError of destructuring \<^verbatim>\<open>null\<close> reach the outer
  \<^verbatim>\<open>catch\<close>, as does a rejected \<^verbatim>\<open>findMany\<close> or \<^verbatim>\<open>updateMany\<close>.
\<close>

definition POST_send :: "env \<Rightarrow> json option \<Rightarrow> world \<Rightarrow> sendResult response \<times> world" where
  "POST_send e request w =
     (case request of
        None \<Rightarrow> (Failure 500 ''Failed to send notification'', w)
      | Some requestBody \<Rightarrow>
          if requestBody = JNull then (Failure 500 ''Failed to send notification'', w)
          else
          (let title = field requestBody ''title'';
               body = field requestBody ''body'';
               dat = field requestBody ''data'';
               sound = field_default requestBody ''sound'' (JStr ''default'');
               badge = field requestBody ''badge'';
               priority = field_default requestBody ''priority'' (JStr ''high'')
           in if \<not> truthy title \<or> \<not> truthy body
              then (Failure 400 ''title and body are required'', w)
              else
                (case pushToken_findMany e w of
                   (Inl err, w1) \<Rightarrow> (Failure 500 ''Failed to send notification'', w1)
                 | (Inr tokens, w1) \<Rightarrow>
                     if length tokens = 0
                     then (Success \<lparr>send_success = False,
                                     send_message = ''No active tokens found'',
                                     sent = 0, tickets = None, errors = None\<rparr>, w1)
                     else
                       (let messages =
                              map (buildMessage sound title body (or_else dat (JObj [])) badge priority)
                                (filter (\<lambda>t. isExpoPushToken e (pt_token t)) tokens);
                            chunks = chunkPushNotifications (chunkSize e) messages
                        in case sendChunks e 0 chunks ([], [], w1) of
                             (tks, errs, w2) \<Rightarrow>
                               (let w3 = logNotifications e title body (or_else dat (JObj [])) tokens w2
                                in case pushToken_updateMany_lastUsedAt e (map pt_id tokens) w3 of
                                     (Inl err, w4) \<Rightarrow> (Failure 500 ''Failed to send notification'', w4)
                                   | (Inr n, w4) \<Rightarrow>
                                       (Success \<lparr>send_success = True,
                                                 send_message =
                                                   ''Sent '' @ digits (length messages) @ '' notifications'',
                                                 sent = length messages,
                                                 tickets = Some tks,
                                                 errors = (if length errs > 0 then Some errs else None)\<rparr>,
                                        w4))))))"

section \<open>Registering and unregistering a token\<close>

text \<open>
  \<^verbatim>\<open>prisma.pushToken.findUnique({ where: { token } })\<close>. The column \<open>token\<close> carries a
  unique index, so at most one row matches.
\<close>

definition pushToken_findUnique ::
  "env \<Rightarrow> string \<Rightarrow> world \<Rightarrow> (exn + pushToken option) \<times> world" where
  "pushToken_findUnique e tok w =
     (if rejected e w then Inl PrismaError
      else Inr (find (\<lambda>t. pt_token t = tok) (pushTokens w)),
      record_call (PushToken_findUnique tok) w)"

text \<open>
  \<^verbatim>\<open>prisma.pushToken.update({ where: { token }, data: { platform, deviceInfo, isActive: true,
  lastUsedAt: new Date() } })\<close>. A field bound to \<^verbatim>\<open>undefined\<close> is left as it is; \<open>platform\<close>
  is NOT NULL, so \<^verbatim>\<open>null\<close> for it is refused; a row that is not there is an error.
\<close>

definition reregistered :: "env \<Rightarrow> json option \<Rightarrow> json option \<Rightarrow> pushToken \<Rightarrow> pushToken" where
  "reregistered e platform deviceInfo t =
     t\<lparr>pt_platform := (case platform of None \<Rightarrow> pt_platform t | Some v \<Rightarrow> v),
       pt_deviceInfo := (case deviceInfo of None \<Rightarrow> pt_deviceInfo t | Some v \<Rightarrow> v),
       pt_isActive := True,
       pt_lastUsedAt := now e,
       pt_updatedAt := now e\<rparr>"

definition pushToken_update ::
  "env \<Rightarrow> string \<Rightarrow> json option \<Rightarrow> json option \<Rightarrow> world \<Rightarrow> (exn + pushToken) \<times> world" where
  "pushToken_update e tok platform deviceInfo w =
     (let c = PushToken_update tok
      in if rejected e w \<or> platform = Some JNull then (Inl PrismaError, record_call c w)
         else
           (case find (\<lambda>t. pt_token t = tok) (pushTokens w) of
              None \<Rightarrow> (Inl PrismaError, record_call c w)
            | Some t \<Rightarrow>
                (Inr (reregistered e platform deviceInfo t),
                 record_call c
                   (w\<lparr>pushTokens :=
                        map (\<lambda>t. if pt_token t = tok then reregistered e platform deviceInfo t else t)
                          (pushTokens w)\<rparr>))))"

text \<open>
  \<^verbatim>\<open>prisma.pushToken.create({ data: { token, platform, deviceInfo, isActive: true } })\<close>. The
  unique index refuses a token that is already stored, and \<open>platform\<close> is required; the
  key and the three times are column defaults.
\<close>

definition pushToken_create ::
  "env \<Rightarrow> string \<Rightarrow> json option \<Rightarrow> json option \<Rightarrow> world \<Rightarrow> (exn + pushToken) \<times> world" where
  "pushToken_create e tok platform deviceInfo w =
     (let c = PushToken_create tok
      in case platform of
           None \<Rightarrow> (Inl PrismaError, record_call c w)
         | Some p \<Rightarrow>
             if rejected e w \<or> p = JNull \<or> tok \<in> set (map pt_token (pushTokens w))
             then (Inl PrismaError, record_call c w)
             else
               (let r = \<lparr>pt_id = nextId w, pt_token = tok, pt_platform = p,
                         pt_deviceInfo = (case deviceInfo of None \<Rightarrow> JNull | Some v \<Rightarrow> v),
                         pt_isActive = True, pt_createdAt = now e, pt_updatedAt = now e,
                         pt_lastUsedAt = now e\<rparr>
                in (Inr r,
                    record_call c (w\<lparr>pushTokens := pushTokens w @ [r], nextId := Suc (nextId w)\<rparr>))))"

record registerResult =
  reg_success :: bool
  reg_message :: string
  tokenId :: nat

text \<open>
  The route \<^verbatim>\<open>POST\<close> of register-token. \<^verbatim>\<open>Expo.isExpoPushToken\<close> is false on everything
  that is not a string, so the format error answers a missing or non-string token too.
\<close>

definition POST_register ::
  "env \<Rightarrow> json option \<Rightarrow> world \<Rightarrow> registerResult response \<times> world" where
  "POST_register e request w =
     (case request of
        None \<Rightarrow> (Failure 500 ''Failed to register token'', w)
      | Some body \<Rightarrow>
          if body = JNull then (Failure 500 ''Failed to register token'', w)
          else
          (let expoPushToken = field body ''token'';
               platform = field body ''platform'';
               deviceInfo = field body ''deviceInfo''
           in case expoPushToken of
                Some (JStr tok) \<Rightarrow>
                  if \<not> isExpoPushToken e tok
                  then (Failure 400 ''Invalid Expo push token format'', w)
                  else
                    (case pushToken_findUnique e tok w of
                       (Inl err, w1) \<Rightarrow> (Failure 500 ''Failed to register token'', w1)
                     | (Inr (Some existingToken), w1) \<Rightarrow>
                         (case pushToken_update e tok platform deviceInfo w1 of
                            (Inl err, w2) \<Rightarrow> (Failure 500 ''Failed to register token'', w2)
                          | (Inr updated, w2) \<Rightarrow>
                              (Success \<lparr>reg_success = True,
                                        reg_message = ''Token updated successfully'',
                                        tokenId = pt_id updated\<rparr>, w2))
                     | (Inr None, w1) \<Rightarrow>
                         (case pushToken_create e tok platform deviceInfo w1 of
                            (Inl err, w2) \<Rightarrow> (Failure 500 ''Failed to register token'', w2)
                          | (Inr newToken, w2) \<Rightarrow>
                              (Success \<lparr>reg_success = True,
                                        reg_message = ''Token registered successfully'',
                                        tokenId = pt_id newToken\<rparr>, w2)))
              | _ \<Rightarrow> (Failure 400 ''Invalid Expo push token format'', w)))"

text \<open>
  \<^verbatim>\<open>prisma.pushToken.updateMany({ where: { token: expoPushToken }, data: { isActive: false } })\<close>
  with the value the request carried; a row matches when its token is that string.
\<close>

definition deactivated :: "env \<Rightarrow> json option \<Rightarrow> pushToken \<Rightarrow> pushToken" where
  "deactivated e x t =
     (if Some (JStr (pt_token t)) = x then t\<lparr>pt_isActive := False, pt_updatedAt := now e\<rparr> else t)"

definition pushToken_updateMany_isActive ::
  "env \<Rightarrow> json option \<Rightarrow> world \<Rightarrow> (exn + nat) \<times> world" where
  "pushToken_updateMany_isActive e x w =
     (let c = PushToken_updateMany_isActive x
      in if rejected e w then (Inl PrismaError, record_call c w)
         else (Inr (length (filter (\<lambda>t. Some (JStr (pt_token t)) = x) (pushTokens w))),
               record_call c (w\<lparr>pushTokens := map (deactivated e x) (pushTokens w)\<rparr>)))"

record unregisterResult =
  unreg_success :: bool
  unreg_message :: string
  count :: nat

definition POST_unregister ::
  "env \<Rightarrow> json option \<Rightarrow> world \<Rightarrow> unregisterResult response \<times> world" where
  "POST_unregister e request w =
     (case request of
        None \<Rightarrow> (Failure 500 ''Failed to unregister token'', w)
      | Some body \<Rightarrow>
          if body = JNull then (Failure 500 ''Failed to unregister token'', w)
          else
          (let expoPushToken = field body ''expoPushToken''
           in if \<not> truthy expoPushToken
              then (Failure 400 ''expoPushToken is required'', w)
              else
                (case pushToken_updateMany_isActive e expoPushToken w of
                   (Inl err, w1) \<Rightarrow> (Failure 500 ''Failed to unregister token'', w1)
                 | (Inr n, w1) \<Rightarrow>
                     (Success \<lparr>unreg_success = True,
                               unreg_message = ''Token unregistered successfully'',
                               count = n\<rparr>, w1))))"

section \<open>Error intake and the error-log read path\<close>

text \<open>\<^verbatim>\<open>prisma.errorLog.create\<close>; the key and \<open>createdAt\<close> are column defaults.\<close>

definition errorLog_create ::
  "env \<Rightarrow> json \<Rightarrow> json \<Rightarrow> json option \<Rightarrow> json option \<Rightarrow> json \<Rightarrow> json \<Rightarrow> json \<Rightarrow> world
     \<Rightarrow> (exn + errorLog) \<times> world" where
  "errorLog_create e tokId platform errorType msg stackTrace ctx appVersion w =
     (let r = \<lparr>el_id = nextId w, el_tokenId = tokId, el_platform = platform,
               el_errorType = errorType, el_message = msg, el_stackTrace = stackTrace,
               el_context = ctx, el_appVersion = appVersion, el_createdAt = now e\<rparr>
      in if rejected e w then (Inl PrismaError, record_call ErrorLog_create w)
         else (Inr r, record_call ErrorLog_create
                 (w\<lparr>errorLogs := errorLogs w @ [r], nextId := Suc (nextId w)\<rparr>)))"

record errorResult =
  err_success :: bool
  err_id :: nat

definition POST_error :: "env \<Rightarrow> json option \<Rightarrow> world \<Rightarrow> errorResult response \<times> world" where
  "POST_error e request w =
     (case request of
        None \<Rightarrow> (Failure 500 ''Failed to log error'', w)
      | Some body \<Rightarrow>
          if body = JNull then (Failure 500 ''Failed to log error'', w)
          else
          (let tokId = field body ''tokenId'';
               platform = field body ''platform'';
               errorType = field body ''errorType'';
               msg = field body ''message'';
               stackTrace = field body ''stackTrace'';
               ctx = field body ''context'';
               appVersion = field body ''appVersion''
           in if \<not> truthy errorType \<or> \<not> truthy msg
              then (Failure 400 ''errorType and message are required'', w)
              else
                (case errorLog_create e (or_else tokId JNull) (or_else platform JNull) errorType msg
                        (or_else stackTrace JNull) (or_else ctx JNull) (or_else appVersion JNull) w of
                   (Inl err, w1) \<Rightarrow> (Failure 500 ''Failed to log error'', w1)
                 | (Inr errLog, w1) \<Rightarrow>
                     (Success \<lparr>err_success = True, err_id = el_id errLog\<rparr>, w1))))"

text \<open>
  The builtin \<^verbatim>\<open>parseInt\<close> with no radix argument: leading white space, a sign, the
  prefix \<^verbatim>\<open>0x\<close> for base 16, then the longest run of digits of the base; \<open>None\<close> is NaN.
  Characters are bytes here, so only the ASCII white space is skipped, and the result is the
  exact integer (a double rounds beyond 53 bits).
\<close>

definition isWhiteSpace :: "char \<Rightarrow> bool" where
  "isWhiteSpace c = (c \<in> set [CHR 0x09, CHR 0x0A, CHR 0x0B, CHR 0x0C, CHR 0x0D, CHR 0x20])"

definition digitValue :: "char \<Rightarrow> nat" where
  "digitValue c =
     (let n = (of_char c :: nat)
      in if 48 \<le> n \<and> n \<le> 57 then n - 48
         else if 97 \<le> n \<and> n \<le> 122 then n - 87
         else if 65 \<le> n \<and> n \<le> 90 then n - 55
         else 36)"

definition parseInt :: "string \<Rightarrow> int option" where
  "parseInt s =
     (let s1 = dropWhile isWhiteSpace s;
          neg = (case s1 of c # r \<Rightarrow> c = CHR ''-'' | [] \<Rightarrow> False);
          s2 = (case s1 of c # r \<Rightarrow> if c = CHR ''-'' \<or> c = CHR ''+'' then r else s1 | [] \<Rightarrow> []);
          hex = (case s2 of a # b # r \<Rightarrow> a = CHR ''0'' \<and> (b = CHR ''x'' \<or> b = CHR ''X'')
                 | _ \<Rightarrow> False);
          radix = (if hex then 16 else 10);
          s3 = (if hex then drop 2 s2 else s2);
          ds = takeWhile (\<lambda>c. digitValue c < radix) s3
      in if ds = [] then None
         else Some ((if neg then - 1 else 1)
                    * int (foldl (\<lambda>a c. a * radix + digitValue c) 0 ds)))"

text \<open>
  The \<^verbatim>\<open>where\<close> object of the read path: a filter is set only by a non-empty query
  parameter.
\<close>

record whereClause =
  where_errorType :: "string option"
  where_platform :: "string option"

definition matches :: "whereClause \<Rightarrow> errorLog \<Rightarrow> bool" where
  "matches wh r =
     ((case where_errorType wh of None \<Rightarrow> True | Some t \<Rightarrow> el_errorType r = Some (JStr t))
      \<and> (case where_platform wh of None \<Rightarrow> True | Some p \<Rightarrow> el_platform r = JStr p))"

text \<open>
  \<^verbatim>\<open>take\<close> of \<^verbatim>\<open>findMany\<close>: the first rows of the ordering, or the last ones for a negative
  number. NaN is no integer and the call is refused.
\<close>

definition takeRows :: "int \<Rightarrow> 'a list \<Rightarrow> 'a list" where
  "takeRows n xs = (if 0 \<le> n then take (nat n) xs else drop (length xs - nat (- n)) xs)"

text \<open>
  \<^verbatim>\<open>prisma.errorLog.findMany({ where, orderBy: { createdAt: "desc" }, take: limit })\<close>; rows
  of equal time keep their table order.
\<close>

definition errorLog_findMany ::
  "env \<Rightarrow> whereClause \<Rightarrow> int option \<Rightarrow> world \<Rightarrow> (exn + errorLog list) \<times> world" where
  "errorLog_findMany e wh limit w =
     (case limit of
        None \<Rightarrow> (Inl PrismaError, record_call ErrorLog_findMany w)
      | Some n \<Rightarrow>
          (if rejected e w then Inl PrismaError
           else Inr (takeRows n
                       (sort_key (\<lambda>r. - int (el_createdAt r)) (filter (matches wh) (errorLogs w)))),
           record_call ErrorLog_findMany w))"

definition errorLog_count :: "env \<Rightarrow> whereClause \<Rightarrow> world \<Rightarrow> (exn + nat) \<times> world" where
  "errorLog_count e wh w =
     (if rejected e w then Inl PrismaError else Inr (length (filter (matches wh) (errorLogs w))),
      record_call ErrorLog_count w)"

text \<open>
  \<^verbatim>\<open>prisma.errorLog.groupBy({ by: ["errorType"], _count: true, orderBy: { _count:
  { errorType: "desc" } } })\<close>: one group per error type of the table, with the number of
  its rows, the largest group first. The call carries no \<^verbatim>\<open>where\<close>.
\<close>

record typeCount =
  tc_type :: "json option"
  tc_count :: nat

definition errorLog_groupBy :: "env \<Rightarrow> world \<Rightarrow> (exn + typeCount list) \<times> world" where
  "errorLog_groupBy e w =
     (if rejected e w then Inl PrismaError
      else Inr (sort_key (\<lambda>g. - int (tc_count g))
                  (map (\<lambda>t. \<lparr>tc_type = t,
                              tc_count = length (filter (\<lambda>r. el_errorType r = t) (errorLogs w))\<rparr>)
                     (remdups (map el_errorType (errorLogs w))))),
      record_call ErrorLog_groupBy w)"

record errorStats =
  total :: nat
  errorTypes :: "typeCount list"

record errorsResult =
  get_success :: bool
  data :: "errorLog list"
  stats :: errorStats

text \<open>
  The route \<^verbatim>\<open>GET\<close> of the error log. The three arguments are the values
  \<^verbatim>\<open>searchParams.get\<close> returns for \<open>limit\<close>, \<open>errorType\<close> and \<open>platform\<close> (\<open>None\<close> is
  \<^verbatim>\<open>null\<close>, the parameter is not in the query).
\<close>

definition nonEmpty :: "string option \<Rightarrow> string option" where
  "nonEmpty p = (case p of None \<Rightarrow> None | Some s \<Rightarrow> if s = [] then None else Some s)"

definition GET_errors ::
  "env \<Rightarrow> string option \<Rightarrow> string option \<Rightarrow> string option \<Rightarrow> world
     \<Rightarrow> errorsResult response \<times> world" where
  "GET_errors e limitParam errorTypeParam platformParam w =
     (let limit = parseInt (case nonEmpty limitParam of None \<Rightarrow> ''50'' | Some s \<Rightarrow> s);
          wh = \<lparr>where_errorType = nonEmpty errorTypeParam, where_platform = nonEmpty platformParam\<rparr>
      in case errorLog_findMany e wh limit w of
           (Inl err, w1) \<Rightarrow> (Failure 500 ''Failed to fetch error logs'', w1)
         | (Inr errLogs, w1) \<Rightarrow>
             (case errorLog_count e wh w1 of
                (Inl err, w2) \<Rightarrow> (Failure 500 ''Failed to fetch error logs'', w2)
              | (Inr n, w2) \<Rightarrow>
                  (case errorLog_groupBy e w2 of
                     (Inl err, w3) \<Rightarrow> (Failure 500 ''Failed to fetch error logs'', w3)
                   | (Inr groups, w3) \<Rightarrow>
                       (Success \<lparr>get_success = True, data = errLogs,
                                 stats = \<lparr>total = n, errorTypes = groups\<rparr>\<rparr>, w3))))"

section \<open>What a request left behind\<close>

text \<open>
  The record of a new NotificationLog row, and the message list the broadcast handler
  builds from a token snapshot: the expressions of the handler, named so that the run of a
  whole request can be written down.
\<close>

definition logRecord :: "env \<Rightarrow> json option \<Rightarrow> json option \<Rightarrow> json \<Rightarrow> nat \<times> pushToken \<Rightarrow> notificationLog" where
  "logRecord e title body dat p =
     \<lparr>nl_id = fst p, nl_tokenId = Some (pt_id (snd p)), nl_title = title, nl_body = body,
      nl_data = dat, nl_status = ''sent'', nl_ticketId = None, nl_sentAt = now e\<rparr>"

definition messagesOf :: "env \<Rightarrow> json \<Rightarrow> pushToken list \<Rightarrow> message list" where
  "messagesOf e b tokens =
     map (buildMessage (field_default b ''sound'' (JStr ''default'')) (field b ''title'') (field b ''body'')
            (or_else (field b ''data'') (JObj [])) (field b ''badge'')
            (field_default b ''priority'' (JStr ''high'')))
       (filter (\<lambda>t. isExpoPushToken e (pt_token t)) tokens)"

text \<open>
  Reading the record of calls: the batches handed to the gateway, the identifier lists of
  the bulk last-used updates, and the calls and log rows a request added to a world.
\<close>

definition sentBatch :: "call \<Rightarrow> message list list" where
  "sentBatch c = (case c of Expo_send ms \<Rightarrow> [ms] | _ \<Rightarrow> [])"

definition gatewayBatches :: "call list \<Rightarrow> message list list" where
  "gatewayBatches cs = concat (map sentBatch cs)"

definition touchedIds :: "call \<Rightarrow> nat list list" where
  "touchedIds c = (case c of PushToken_updateMany_lastUsedAt ids \<Rightarrow> [ids] | _ \<Rightarrow> [])"

definition lastUsedUpdates :: "call list \<Rightarrow> nat list list" where
  "lastUsedUpdates cs = concat (map touchedIds cs)"

definition callsOf :: "world \<Rightarrow> world \<Rightarrow> call list" where
  "callsOf w w' = drop (length (calls w)) (calls w')"

definition logsOf :: "world \<Rightarrow> world \<Rightarrow> notificationLog list" where
  "logsOf w w' = drop (length (notificationLogs w)) (notificationLogs w')"

section \<open>Example values\<close>

text \<open>
  A gateway that accepts every batch, a reachable database, and a format check that asks
  for the prefix of an Expo token.
\<close>

definition env_ok :: env where
  "env_ok = \<lparr>isExpoPushToken = (\<lambda>s. take 18 s = ''ExponentPushToken[''),
             chunkSize = 100,
             expoSend = (\<lambda>k ms. Inr (map (\<lambda>m. TicketOk (m_to m)) ms)),
             prismaRejects = (\<lambda>k. False),
             now = 7\<rparr>"

definition device :: "nat \<Rightarrow> pushToken" where
  "device i = \<lparr>pt_id = i, pt_token = ''ExponentPushToken['' @ digits i @ '']'',
              pt_platform = JStr ''ios'', pt_deviceInfo = JNull, pt_isActive = True,
              pt_createdAt = 0, pt_updatedAt = 0, pt_lastUsedAt = 0\<rparr>"

definition world250 :: world where
  "world250 = \<lparr>pushTokens = map device [0..<250], notificationLogs = [], errorLogs = [],
               nextId = 250, calls = []\<rparr>"

definition world_idle :: world where
  "world_idle = \<lparr>pushTokens = [(device 1)\<lparr>pt_isActive := False\<rparr>], notificationLogs = [],
                 errorLogs = [], nextId = 2, calls = []\<rparr>"

definition request_hello :: json where
  "request_hello = JObj [(''title'', JStr ''Hello''), (''body'', JStr ''World'')]"

definition run250 :: "sendResult response \<times> world" where
  "run250 = POST_send env_ok (Some request_hello) world250"

definition env_flaky :: env where
  "env_flaky = \<lparr>isExpoPushToken = (\<lambda>s. take 18 s = ''ExponentPushToken[''),
                chunkSize = 2,
                expoSend = (\<lambda>k ms. if k = 1 then Inl (ExpoError ''network'')
                                   else Inr (map (\<lambda>m. TicketOk (m_to m)) ms)),
                prismaRejects = (\<lambda>k. False),
                now = 7\<rparr>"

definition env_lossy :: env where
  "env_lossy = env_flaky\<lparr>prismaRejects := (\<lambda>k. k = 4 \<or> k = 6)\<rparr>"

definition world5 :: world where
  "world5 = \<lparr>pushTokens = [device 0, device 1, device 2, device 3, device 4],
             notificationLogs = [], errorLogs = [], nextId = 5, calls = []\<rparr>"

definition msg :: "nat \<Rightarrow> message" where
  "msg i = buildMessage (JStr ''default'') (Some (JStr ''Hello'')) (Some (JStr ''World'')) (JObj [])
             None (JStr ''high'') (device i)"

definition stale_device :: pushToken where
  "stale_device = (device 2)\<lparr>pt_token := ''not-an-expo-token''\<rparr>"

definition world_mixed :: world where
  "world_mixed = \<lparr>pushTokens = [device 1, stale_device], notificationLogs = [], errorLogs = [],
                  nextId = 3, calls = []\<rparr>"

definition errlog :: "nat \<Rightarrow> string \<Rightarrow> string \<Rightarrow> nat \<Rightarrow> errorLog" where
  "errlog i ty pf created =
     \<lparr>el_id = i, el_tokenId = JNull, el_platform = JStr pf, el_errorType = Some (JStr ty),
      el_message = Some (JStr ''boom''), el_stackTrace = JNull, el_context = JNull,
      el_appVersion = JNull, el_createdAt = created\<rparr>"

definition world_errors :: world where
  "world_errors = \<lparr>pushTokens = [], notificationLogs = [],
                   errorLogs = [errlog 1 ''crash'' ''ios'' 10, errlog 2 ''network'' ''android'' 20,
                                errlog 3 ''crash'' ''android'' 30],
                   nextId = 4, calls = []\<rparr>"

definition world_empty :: world where
  "world_empty = \<lparr>pushTokens = [], notificationLogs = [], errorLogs = [], nextId = 1, calls = []\<rparr>"

definition request_register :: json where
  "request_register = JObj [(''token'', JStr ''ExponentPushToken[abc]''), (''platform'', JStr ''ios'')]"

definition request_unregister :: json where
  "request_unregister = JObj [(''expoPushToken'', JStr ''ExponentPushToken[abc]'')]"

definition after_register :: world where
  "after_register = snd (POST_register env_ok (Some request_register) world_empty)"

definition after_unregister :: world where
  "after_unregister = snd (POST_unregister env_ok (Some request_unregister) after_register)"

definition after_again :: "registerResult response \<times> world" where
  "after_again = POST_register env_ok (Some request_register) after_unregister"

section \<open>Lemmas on the loops and the partition\<close>

lemma upt_shift: "map f [0..<Suc n] = f 0 # map (\<lambda>i. f (Suc i)) [0..<n]"
  by (simp only: upt_conv_Cons [of 0 "Suc n"] map_Suc_upt [symmetric] list.map map_map comp_def)

lemma sendChunks_run:
  "sendChunks e k chunks (tks, errs, w) =
     (tks @ concat (map (\<lambda>i. case expoSend e (k + i) (chunks ! i) of Inr t \<Rightarrow> t | Inl x \<Rightarrow> [])
                     [0..<length chunks]),
      errs @ concat (map (\<lambda>i. case expoSend e (k + i) (chunks ! i) of Inr t \<Rightarrow> [] | Inl x \<Rightarrow> [x])
                      [0..<length chunks]),
      w\<lparr>calls := calls w @ map Expo_send chunks\<rparr>)"
proof (induction chunks arbitrary: k tks errs w)
  case Nil
  then show ?case by simp
next
  case (Cons c cs)
  show ?case
  proof (cases "expoSend e k c")
    case (Inl x)
    then show ?thesis
      by (simp add: Cons.IH upt_shift record_call_def del: upt_Suc)
  next
    case (Inr t)
    then show ?thesis
      by (simp add: Cons.IH upt_shift record_call_def del: upt_Suc)
  qed
qed

lemma logNotifications_run:
  assumes "\<forall>k. \<not> prismaRejects e k"
  shows "logNotifications e title body dat ts w =
     w\<lparr>notificationLogs := notificationLogs w @ map (logRecord e title body dat) (enumerate (nextId w) ts),
       nextId := nextId w + length ts,
       calls := calls w @ map (\<lambda>t. NotificationLog_create (Some (pt_id t))) ts\<rparr>"
proof (induction ts arbitrary: w)
  case Nil
  then show ?case by simp
next
  case (Cons t ts)
  show ?case
    using assms
    by (simp add: Cons.IH notificationLog_create_def rejected_def record_call_def logRecord_def Let_def)
qed


lemma POST_send_run:
  assumes t: "truthy (field (JObj kvs) ''title'')" and b: "truthy (field (JObj kvs) ''body'')"
      and ok: "\<forall>k. \<not> prismaRejects e k"
      and ne: "filter pt_isActive (pushTokens w) \<noteq> []"
      and toks: "tokens = filter pt_isActive (pushTokens w)"
      and msgs: "messages = messagesOf e (JObj kvs) tokens"
      and chs: "chunks = chunkPushNotifications (chunkSize e) messages"
  shows "POST_send e (Some (JObj kvs)) w =
    (Success \<lparr>send_success = True,
              send_message = ''Sent '' @ digits (length messages) @ '' notifications'',
              sent = length messages,
              tickets = Some (concat (map (\<lambda>i. case expoSend e i (chunks ! i) of Inr t \<Rightarrow> t | Inl x \<Rightarrow> [])
                                      [0..<length chunks])),
              errors = (let errs = concat (map (\<lambda>i. case expoSend e i (chunks ! i) of Inr t \<Rightarrow> [] | Inl x \<Rightarrow> [x])
                                      [0..<length chunks])
                        in if errs = [] then None else Some errs)\<rparr>,
     w\<lparr>pushTokens := map (touch e (map pt_id tokens)) (pushTokens w),
       notificationLogs := notificationLogs w
          @ map (logRecord e (field (JObj kvs) ''title'') (field (JObj kvs) ''body'')
                   (or_else (field (JObj kvs) ''data'') (JObj []))) (enumerate (nextId w) tokens),
       nextId := nextId w + length tokens,
       calls := calls w @ PushToken_findMany # map Expo_send chunks
                 @ map (\<lambda>t. NotificationLog_create (Some (pt_id t))) tokens
                 @ [PushToken_updateMany_lastUsedAt (map pt_id tokens)]\<rparr>)"
proof -
  have fm: "pushToken_findMany e w = (Inr tokens, record_call PushToken_findMany w)"
    using ok toks by (simp add: pushToken_findMany_def rejected_def)
  have um: "\<And>w3. pushToken_updateMany_lastUsedAt e (map pt_id tokens) w3 =
      (Inr (length (filter (\<lambda>t. pt_id t \<in> set (map pt_id tokens)) (pushTokens w3))),
       record_call (PushToken_updateMany_lastUsedAt (map pt_id tokens))
         (w3\<lparr>pushTokens := map (touch e (map pt_id tokens)) (pushTokens w3)\<rparr>))"
    using ok by (simp add: pushToken_updateMany_lastUsedAt_def rejected_def Let_def)
  have len: "length tokens \<noteq> 0" using ne toks by simp
  show ?thesis
    unfolding POST_send_def chs msgs messagesOf_def
    using t b len
    by (simp add: Let_def fm um sendChunks_run logNotifications_run [OF ok] record_call_def
        del: upt_Suc)
qed


lemma logNotifications_calls:
  "calls (logNotifications e title body dat ts w)
     = calls w @ map (\<lambda>t. NotificationLog_create (Some (pt_id t))) ts"
  by (induction ts arbitrary: w)
     (simp_all add: notificationLog_create_def record_call_def Let_def)

lemma POST_send_answer:
  assumes t: "truthy (field (JObj kvs) ''title'')" and b: "truthy (field (JObj kvs) ''body'')"
      and fm: "\<not> prismaRejects e (length (calls w))"
      and toks: "tokens = filter pt_isActive (pushTokens w)" and ne: "tokens \<noteq> []"
      and chs: "chunks = chunkPushNotifications (chunkSize e) (messagesOf e (JObj kvs) tokens)"
      and um: "\<not> prismaRejects e (length (calls w) + 1 + length chunks + length tokens)"
  shows "fst (POST_send e (Some (JObj kvs)) w) =
     Success \<lparr>send_success = True,
              send_message = ''Sent '' @ digits (length (messagesOf e (JObj kvs) tokens)) @ '' notifications'',
              sent = length (messagesOf e (JObj kvs) tokens),
              tickets = Some (concat (map (\<lambda>i. case expoSend e i (chunks ! i) of Inr t \<Rightarrow> t | Inl x \<Rightarrow> [])
                                      [0..<length chunks])),
              errors = (let errs = concat (map (\<lambda>i. case expoSend e i (chunks ! i) of Inr t \<Rightarrow> [] | Inl x \<Rightarrow> [x])
                                      [0..<length chunks])
                        in if errs = [] then None else Some errs)\<rparr>"
    and "calls (snd (POST_send e (Some (JObj kvs)) w)) =
           calls w @ PushToken_findMany # map Expo_send chunks
             @ map (\<lambda>t. NotificationLog_create (Some (pt_id t))) tokens
             @ [PushToken_updateMany_lastUsedAt (map pt_id tokens)]"
proof -
  define w1 where "w1 = record_call PushToken_findMany w"
  define w2 where "w2 = w1\<lparr>calls := calls w1 @ map Expo_send chunks\<rparr>"
  define w3 where "w3 = logNotifications e (field (JObj kvs) ''title'') (field (JObj kvs) ''body'')
                          (or_else (field (JObj kvs) ''data'') (JObj [])) tokens w2"
  have fmr: "pushToken_findMany e w = (Inr tokens, w1)"
    using fm toks by (simp add: pushToken_findMany_def rejected_def w1_def)
  have len: "length tokens \<noteq> 0" using ne by simp
  have c3: "calls w3 = calls w @ PushToken_findMany # map Expo_send chunks
             @ map (\<lambda>t. NotificationLog_create (Some (pt_id t))) tokens"
    by (simp add: w3_def w2_def w1_def logNotifications_calls record_call_def)
  have "length (calls w3) = length (calls w) + 1 + length chunks + length tokens"
    by (simp add: c3)
  then have nr: "\<not> rejected e w3"
    using um by (simp add: rejected_def)
  have umr: "pushToken_updateMany_lastUsedAt e (map pt_id tokens) w3 =
      (Inr (length (filter (\<lambda>t. pt_id t \<in> set (map pt_id tokens)) (pushTokens w3))),
       record_call (PushToken_updateMany_lastUsedAt (map pt_id tokens))
         (w3\<lparr>pushTokens := map (touch e (map pt_id tokens)) (pushTokens w3)\<rparr>))"
    using nr by (simp add: pushToken_updateMany_lastUsedAt_def Let_def)
  have run: "POST_send e (Some (JObj kvs)) w =
     (Success \<lparr>send_success = True,
              send_message = ''Sent '' @ digits (length (messagesOf e (JObj kvs) tokens)) @ '' notifications'',
              sent = length (messagesOf e (JObj kvs) tokens),
              tickets = Some (concat (map (\<lambda>i. case expoSend e i (chunks ! i) of Inr t \<Rightarrow> t | Inl x \<Rightarrow> [])
                                      [0..<length chunks])),
              errors = (let errs = concat (map (\<lambda>i. case expoSend e i (chunks ! i) of Inr t \<Rightarrow> [] | Inl x \<Rightarrow> [x])
                                      [0..<length chunks])
                        in if errs = [] then None else Some errs)\<rparr>,
      record_call (PushToken_updateMany_lastUsedAt (map pt_id tokens))
         (w3\<lparr>pushTokens := map (touch e (map pt_id tokens)) (pushTokens w3)\<rparr>))"
    unfolding POST_send_def w3_def w2_def chs messagesOf_def
    using t b len
    by (simp add: Let_def fmr sendChunks_run
          umr [unfolded w3_def w2_def chs messagesOf_def] del: upt_Suc field.simps)
  show "fst (POST_send e (Some (JObj kvs)) w) =
     Success \<lparr>send_success = True,
              send_message = ''Sent '' @ digits (length (messagesOf e (JObj kvs) tokens)) @ '' notifications'',
              sent = length (messagesOf e (JObj kvs) tokens),
              tickets = Some (concat (map (\<lambda>i. case expoSend e i (chunks ! i) of Inr t \<Rightarrow> t | Inl x \<Rightarrow> [])
                                      [0..<length chunks])),
              errors = (let errs = concat (map (\<lambda>i. case expoSend e i (chunks ! i) of Inr t \<Rightarrow> [] | Inl x \<Rightarrow> [x])
                                      [0..<length chunks])
                        in if errs = [] then None else Some errs)\<rparr>"
    by (simp only: run fst_conv)
  show "calls (snd (POST_send e (Some (JObj kvs)) w)) =
           calls w @ PushToken_findMany # map Expo_send chunks
             @ map (\<lambda>t. NotificationLog_create (Some (pt_id t))) tokens
             @ [PushToken_updateMany_lastUsedAt (map pt_id tokens)]"
    by (simp add: run record_call_def c3)
qed


lemma gatewayBatches_simps:
  "gatewayBatches [] = []"
  "gatewayBatches (xs @ ys) = gatewayBatches xs @ gatewayBatches ys"
  "gatewayBatches (PushToken_findMany # cs) = gatewayBatches cs"
  "gatewayBatches (PushToken_updateMany_lastUsedAt ids # cs) = gatewayBatches cs"
  "gatewayBatches (map Expo_send chunks) = chunks"
  "gatewayBatches (map (\<lambda>t. NotificationLog_create (f t)) ts) = []"
  by (induction chunks) (simp_all add: gatewayBatches_def sentBatch_def)

lemma lastUsedUpdates_simps:
  "lastUsedUpdates [] = []"
  "lastUsedUpdates (xs @ ys) = lastUsedUpdates xs @ lastUsedUpdates ys"
  "lastUsedUpdates (PushToken_findMany # cs) = lastUsedUpdates cs"
  "lastUsedUpdates (PushToken_updateMany_lastUsedAt ids # cs) = ids # lastUsedUpdates cs"
  "lastUsedUpdates (map Expo_send chunks) = []"
  "lastUsedUpdates (map (\<lambda>t. NotificationLog_create (f t)) ts) = []"
  by (induction chunks) (simp_all add: lastUsedUpdates_def touchedIds_def)

lemma POST_send_empty:
  assumes t: "truthy (field (JObj kvs) ''title'')" and b: "truthy (field (JObj kvs) ''body'')"
      and ok: "\<not> prismaRejects e (length (calls w))"
      and ne: "filter pt_isActive (pushTokens w) = []"
  shows "POST_send e (Some (JObj kvs)) w =
           (Success \<lparr>send_success = False, send_message = ''No active tokens found'',
                     sent = 0, tickets = None, errors = None\<rparr>,
            w\<lparr>calls := calls w @ [PushToken_findMany]\<rparr>)"
  unfolding POST_send_def using t b ok ne
  by (simp add: Let_def pushToken_findMany_def rejected_def record_call_def)

lemma chunk_zero: "chunkPushNotifications 0 xs = []"
  by (simp add: chunkPushNotifications.simps [of 0 xs])

lemma chunk_nil: "chunkPushNotifications B [] = []"
  by (simp add: chunkPushNotifications.simps [of B "[]"])

lemma chunk_concat: "0 < B \<Longrightarrow> concat (chunkPushNotifications B xs) = xs"
proof (induction B xs rule: chunkPushNotifications.induct)
  case (1 B xs)
  then show ?case
    by (cases "xs = []") (simp_all add: chunk_nil chunkPushNotifications.simps [of B xs])
qed

lemma chunk_subset: "set (concat (chunkPushNotifications B xs)) \<subseteq> set xs"
  by (cases "B = 0") (simp_all add: chunk_zero chunk_concat)

lemma chunk_sizes:
  "0 < B \<Longrightarrow> map length (chunkPushNotifications B xs)
     = replicate (length xs div B) B @ (if length xs mod B = 0 then [] else [length xs mod B])"
proof (induction B xs rule: chunkPushNotifications.induct)
  case (1 B xs)
  show ?case
  proof (cases "xs = []")
    case True
    then show ?thesis by (simp add: chunk_nil)
  next
    case False
    have step: "chunkPushNotifications B xs = take B xs # chunkPushNotifications B (drop B xs)"
      using False 1(2) by (simp add: chunkPushNotifications.simps [of B xs])
    show ?thesis
    proof (cases "B \<le> length xs")
      case True
      then have d: "length xs div B = Suc ((length xs - B) div B)"
        using 1(2) by (simp add: le_div_geq)
      have m: "length xs mod B = (length xs - B) mod B"
        using True by (simp add: le_mod_geq)
      have ih: "map length (chunkPushNotifications B (drop B xs))
          = replicate ((length xs - B) div B) B
            @ (if (length xs - B) mod B = 0 then [] else [(length xs - B) mod B])"
        using 1 False by simp
      show ?thesis using ih d m True step by simp
    next
      case False
      then have lt: "length xs < B" by simp
      have "chunkPushNotifications B (drop B xs) = []"
        using lt by (simp add: chunk_nil)
      then show ?thesis using lt \<open>xs \<noteq> []\<close> step by simp
    qed
  qed
qed

lemma ceil_div_step: "0 < B \<Longrightarrow> 0 < n \<Longrightarrow> (n + B - 1) div B = Suc ((n - 1) div B)"
  by (cases n) simp_all

lemma chunk_count: "0 < B \<Longrightarrow> length (chunkPushNotifications B xs) = (length xs + B - 1) div B"
proof (induction B xs rule: chunkPushNotifications.induct)
  case (1 B xs)
  show ?case
  proof (cases "xs = []")
    case True
    then show ?thesis using 1(2) by (simp add: chunk_nil)
  next
    case False
    then have pos: "0 < length xs" by simp
    have step: "chunkPushNotifications B xs = take B xs # chunkPushNotifications B (drop B xs)"
      using False 1(2) by (simp add: chunkPushNotifications.simps [of B xs])
    have ih: "length (chunkPushNotifications B (drop B xs)) = (length xs - B + B - 1) div B"
      using 1 False by simp
    have up: "(length xs + B - 1) div B = Suc ((length xs - 1) div B)"
      using ceil_div_step [OF 1(2) pos] .
    show ?thesis
    proof (cases "B \<le> length xs")
      case True
      then have "length xs - B + B - 1 = length xs - 1" by simp
      then show ?thesis using ih step up by simp
    next
      case False
      then have "(length xs - B + B - 1) div B = 0" using 1(2) by simp
      moreover have "(length xs - 1) div B = 0" using False by simp
      ultimately show ?thesis using ih step up False by simp
    qed
  qed
qed


lemma map_snd_enum: "map (\<lambda>x. f (snd x)) (enumerate n xs) = map f xs"
  by (induction xs arbitrary: n) simp_all

section \<open>The broadcast pipeline\<close>

lemma falsy_missing_or_empty: "v \<in> {None, Some (JStr [])} \<Longrightarrow> \<not> truthy v"
  by auto

text \<open>
  C3. A broadcast request whose title or body is missing or the empty string is answered
  with status 400, and the world is returned as it was: no call is put on record (no read
  of the token store, no gateway call, no log write, no last-used update) and no table
  changes.
\<close>

theorem C3_validation_without_side_effect:
  assumes "field (JObj kvs) ''title'' \<in> {None, Some (JStr '''')}
         \<or> field (JObj kvs) ''body'' \<in> {None, Some (JStr '''')}"
  shows "POST_send e (Some (JObj kvs)) w = (Failure 400 ''title and body are required'', w)"
proof -
  have "\<not> truthy (field (JObj kvs) ''title'') \<or> \<not> truthy (field (JObj kvs) ''body'')"
    using assms falsy_missing_or_empty by blast
  then show ?thesis
    unfolding POST_send_def by (simp add: Let_def)
qed

theorem C3_witness:
  "POST_send env_ok (Some (JObj [(''title'', JStr ''''), (''body'', JStr ''World'')])) world250
     = (Failure 400 ''title and body are required'', world250)"
  using C3_validation_without_side_effect
          [of "[(''title'', JStr ''''), (''body'', JStr ''World'')]" env_ok world250]
  by simp

text \<open>
  C4. A broadcast with a valid title and body against a store with no active token, the
  snapshot read succeeding, is answered with status 200, \<open>success = false\<close> and
  \<open>sent = 0\<close>; the read of the token store is the only call made, so the gateway is not
  contacted and no NotificationLog row is written.
\<close>

theorem C4_empty_audience:
  assumes "truthy (field (JObj kvs) ''title'')" and "truthy (field (JObj kvs) ''body'')"
      and "\<not> prismaRejects e (length (calls w))"
      and "\<forall>t \<in> set (pushTokens w). \<not> pt_isActive t"
  shows "POST_send e (Some (JObj kvs)) w =
           (Success \<lparr>send_success = False, send_message = ''No active tokens found'',
                     sent = 0, tickets = None, errors = None\<rparr>,
            w\<lparr>calls := calls w @ [PushToken_findMany]\<rparr>)"
proof -
  have "filter pt_isActive (pushTokens w) = []"
    using assms(4) by (simp add: filter_empty_conv)
  then show ?thesis using assms(1-3) by (rule POST_send_empty [rotated 3])
qed

theorem C4_witness:
  "POST_send env_ok (Some request_hello) world_idle =
     (Success \<lparr>send_success = False, send_message = ''No active tokens found'',
               sent = 0, tickets = None, errors = None\<rparr>,
      world_idle\<lparr>calls := calls world_idle @ [PushToken_findMany]\<rparr>)"
  using C4_empty_audience
          [of "[(''title'', JStr ''Hello''), (''body'', JStr ''World'')]" env_ok world_idle]
  by (simp add: request_hello_def env_ok_def world_idle_def)

text \<open>
  C5. A broadcast against \<open>N\<close> active tokens that all pass the format check, with batch
  bound \<open>B\<close> and a reachable database, whatever the gateway answers to each batch: the
  gateway receives \<open>\<lceil>N / B\<rceil>\<close> batches, of \<open>B\<close> messages each but for a shorter last
  one, which together address the tokens of the snapshot in order; \<open>N\<close> NotificationLog
  rows are written, one per token of the snapshot; and when \<open>N > 0\<close> the answer reports
  \<open>sent = N\<close> and a single bulk last-used update names the \<open>N\<close> tokens.
\<close>

theorem C5_batches_and_logs:
  assumes t: "truthy (field (JObj kvs) ''title'')" and b: "truthy (field (JObj kvs) ''body'')"
      and ok: "\<forall>k. \<not> prismaRejects e k"
      and B: "B = chunkSize e" "0 < B"
      and valid: "\<forall>t \<in> set (pushTokens w). pt_isActive t \<longrightarrow> isExpoPushToken e (pt_token t)"
      and N: "N = length (filter pt_isActive (pushTokens w))"
      and run: "POST_send e (Some (JObj kvs)) w = (r, w')"
  shows "length (gatewayBatches (callsOf w w')) = (N + B - 1) div B
       \<and> map length (gatewayBatches (callsOf w w'))
           = replicate (N div B) B @ (if N mod B = 0 then [] else [N mod B])
       \<and> map m_to (concat (gatewayBatches (callsOf w w')))
           = map pt_token (filter pt_isActive (pushTokens w))
       \<and> length (logsOf w w') = N
       \<and> map nl_tokenId (logsOf w w') = map (\<lambda>t. Some (pt_id t)) (filter pt_isActive (pushTokens w))
       \<and> (0 < N \<longrightarrow> (\<exists>res. r = Success res \<and> send_success res \<and> sent res = N)
                    \<and> lastUsedUpdates (callsOf w w') = [map pt_id (filter pt_isActive (pushTokens w))])"
proof (cases "filter pt_isActive (pushTokens w) = []")
  case True
  have "\<not> prismaRejects e (length (calls w))" using ok by simp
  from POST_send_empty [OF t b this True] run
  have w': "w' = w\<lparr>calls := calls w @ [PushToken_findMany]\<rparr>" by simp
  have "N = 0" using N True by simp
  then show ?thesis
    using True B(2) by (simp add: w' callsOf_def logsOf_def gatewayBatches_simps)
next
  case False
  define tokens where "tokens = filter pt_isActive (pushTokens w)"
  define messages where "messages = messagesOf e (JObj kvs) tokens"
  define chunks where "chunks = chunkPushNotifications (chunkSize e) messages"
  note R = POST_send_run [OF t b ok False tokens_def messages_def chunks_def]
  have allv: "filter (\<lambda>t. isExpoPushToken e (pt_token t)) tokens = tokens"
    using valid unfolding tokens_def filter_filter by (auto intro: filter_cong)
  have "length messages = length tokens"
    by (simp add: messages_def messagesOf_def allv)
  then have lm: "length messages = N"
    by (simp add: N tokens_def)
  have to: "map m_to messages = map pt_token tokens"
    by (simp add: messages_def messagesOf_def allv buildMessage_def)
  have r: "r = fst (POST_send e (Some (JObj kvs)) w)" and w': "w' = snd (POST_send e (Some (JObj kvs)) w)"
    using run by simp_all
  have cs: "callsOf w w' = PushToken_findMany # map Expo_send chunks
                 @ map (\<lambda>t. NotificationLog_create (Some (pt_id t))) tokens
                 @ [PushToken_updateMany_lastUsedAt (map pt_id tokens)]"
    by (simp add: w' R callsOf_def)
  have gb: "gatewayBatches (callsOf w w') = chunks"
    by (simp add: cs gatewayBatches_simps)
  have lu: "lastUsedUpdates (callsOf w w') = [map pt_id tokens]"
    by (simp add: cs lastUsedUpdates_simps)
  have lg: "logsOf w w' = map (logRecord e (field (JObj kvs) ''title'') (field (JObj kvs) ''body'')
                   (or_else (field (JObj kvs) ''data'') (JObj []))) (enumerate (nextId w) tokens)"
    by (simp add: w' R logsOf_def)
  have c1: "length (gatewayBatches (callsOf w w')) = (N + B - 1) div B"
    using chunk_count [OF B(2), of messages] by (simp add: gb chunks_def B(1) [symmetric] lm)
  have c2: "map length (gatewayBatches (callsOf w w'))
           = replicate (N div B) B @ (if N mod B = 0 then [] else [N mod B])"
    using chunk_sizes [OF B(2), of messages] by (simp add: gb chunks_def B(1) [symmetric] lm)
  have c3: "map m_to (concat (gatewayBatches (callsOf w w'))) = map pt_token (filter pt_isActive (pushTokens w))"
    using chunk_concat [OF B(2), of messages] to
    by (simp add: gb chunks_def B(1) [symmetric] tokens_def)
  have c4: "length (logsOf w w') = N"
    by (simp add: lg N tokens_def)
  have c5: "map nl_tokenId (logsOf w w') = map (\<lambda>t. Some (pt_id t)) (filter pt_isActive (pushTokens w))"
    by (simp add: lg logRecord_def tokens_def [symmetric] comp_def
          map_snd_enum [of "\<lambda>t. Some (pt_id t)"])
  have c6: "\<exists>res. r = Success res \<and> send_success res \<and> sent res = N"
    by (simp add: r R lm)
  show ?thesis using c1 c2 c3 c4 c5 c6 lu by (simp add: tokens_def)
qed

text \<open>The scenario of 250 active tokens and a batch bound of 100.\<close>

theorem C5_witness:
  "map length (gatewayBatches (callsOf world250 (snd run250))) = [100, 100, 50]
   \<and> length (gatewayBatches (callsOf world250 (snd run250))) = 3
   \<and> length (logsOf world250 (snd run250)) = 250
   \<and> (\<exists>res. fst run250 = Success res \<and> send_success res \<and> sent res = 250)
   \<and> map length (lastUsedUpdates (callsOf world250 (snd run250))) = [250]"
proof -
  have t: "truthy (field (JObj [(''title'', JStr ''Hello''), (''body'', JStr ''World'')]) ''title'')"
    by simp
  have b: "truthy (field (JObj [(''title'', JStr ''Hello''), (''body'', JStr ''World'')]) ''body'')"
    by simp
  have ok: "\<forall>k. \<not> prismaRejects env_ok k"
    by (simp add: env_ok_def)
  have valid: "\<forall>t \<in> set (pushTokens world250). pt_isActive t \<longrightarrow> isExpoPushToken env_ok (pt_token t)"
    by (simp add: world250_def device_def env_ok_def)
  have act: "filter pt_isActive (pushTokens world250) = map device [0..<250]"
    by (simp add: world250_def device_def filter_map comp_def)
  have N: "250 = length (filter pt_isActive (pushTokens world250))"
    by (simp add: act)
  have B: "100 = chunkSize env_ok" "0 < (100::nat)"
    by (simp_all add: env_ok_def)
  have run: "POST_send env_ok (Some (JObj [(''title'', JStr ''Hello''), (''body'', JStr ''World'')])) world250
               = (fst run250, snd run250)"
    by (simp add: run250_def request_hello_def)
  have r: "replicate 2 (100::nat) = [100, 100]"
    by (simp add: numeral_2_eq_2)
  show ?thesis
    using C5_batches_and_logs [OF t b ok B valid N run]
    by (simp add: act r)
qed

lemma concat_map_but_one:
  assumes "\<And>j. j \<in> set xs \<Longrightarrow> j \<noteq> k \<Longrightarrow> f j = tk j" and "f k = []"
  shows "concat (map f xs) = concat (map tk (filter (\<lambda>j. j \<noteq> k) xs))"
  using assms by (induction xs) auto

lemma concat_map_only_one:
  assumes k: "k < m" and at: "g k = [x]" and others: "\<And>j. j < m \<Longrightarrow> j \<noteq> k \<Longrightarrow> g j = []"
  shows "concat (map g [0..<m]) = [x]"
proof -
  have split: "[0..<m] = [0..<k] @ k # [Suc k..<m]"
    using k by (metis le_add1 less_imp_add_positive upt_add_eq_append upt_conv_Cons plus_nat.add_0)
  have a: "concat (map g [0..<k]) = []" using others k by simp
  have c: "concat (map g [Suc k..<m]) = []" using others by simp
  show ?thesis
    unfolding split by (simp only: map_append list.map concat_append concat.simps a c at) simp
qed

lemma touch_isActive: "pt_isActive (touch e ids t) = pt_isActive t"
  by (simp add: touch_def)

lemma messagesOf_to:
  "map m_to (messagesOf e b tokens) = map pt_token (filter (\<lambda>t. isExpoPushToken e (pt_token t)) tokens)"
  by (simp add: messagesOf_def buildMessage_def comp_def)

lemma logRecord_for:
  assumes "t \<in> set tokens"
  shows "\<exists>l \<in> set (map (logRecord e ti bo da) (enumerate n tokens)).
           nl_tokenId l = Some (pt_id t) \<and> nl_status l = ''sent''"
proof -
  from assms obtain i where i: "i < length tokens" "tokens ! i = t"
    by (auto simp: in_set_conv_nth)
  then have "(n + i, t) \<in> set (enumerate n tokens)"
    by (auto simp: in_set_enumerate_eq)
  then have "logRecord e ti bo da (n + i, t) \<in> logRecord e ti bo da ` set (enumerate n tokens)"
    by (rule imageI)
  then have "logRecord e ti bo da (n + i, t) \<in> set (map (logRecord e ti bo da) (enumerate n tokens))"
    by (simp only: set_map)
  then show ?thesis
    by (rule bexI [rotated]) (simp add: logRecord_def)
qed

text \<open>
  C2. A broadcast with a reachable database is dispatched as the batches \<open>chunks\<close>; the
  send of batch \<open>k\<close> throws \<open>err\<close> and every other batch \<open>j\<close> is accepted with tickets
  \<open>tk j\<close>. Then the gateway was handed exactly these batches, the answer's \<open>errors\<close> is
  the one-element list \<open>[err]\<close>, its \<open>tickets\<close> are the tickets of the accepted batches in
  batch order, and a NotificationLog row with status sent is written for every token of
  the send set, those addressed by the failed batch included.
\<close>

theorem C2_one_batch_fails:
  assumes t: "truthy (field (JObj kvs) ''title'')" and b: "truthy (field (JObj kvs) ''body'')"
      and ok: "\<forall>k. \<not> prismaRejects e k"
      and toks: "tokens = filter pt_isActive (pushTokens w)" and ne: "tokens \<noteq> []"
      and chs: "chunks = chunkPushNotifications (chunkSize e) (messagesOf e (JObj kvs) tokens)"
      and k: "k < length chunks" and fails: "expoSend e k (chunks ! k) = Inl err"
      and others: "\<forall>j < length chunks. j \<noteq> k \<longrightarrow> expoSend e j (chunks ! j) = Inr (tk j)"
      and run: "POST_send e (Some (JObj kvs)) w = (r, w')"
  shows "gatewayBatches (callsOf w w') = chunks
       \<and> (\<exists>res. r = Success res \<and> errors res = Some [err]
              \<and> tickets res = Some (concat (map tk (filter (\<lambda>j. j \<noteq> k) [0..<length chunks]))))
       \<and> (\<forall>x \<in> set tokens. isExpoPushToken e (pt_token x) \<longrightarrow>
             (\<exists>l \<in> set (logsOf w w'). nl_tokenId l = Some (pt_id x) \<and> nl_status l = ''sent''))
       \<and> (\<forall>m \<in> set (chunks ! k). \<exists>x \<in> set tokens. pt_token x = m_to m
             \<and> (\<exists>l \<in> set (logsOf w w'). nl_tokenId l = Some (pt_id x) \<and> nl_status l = ''sent''))"
proof -
  have ne': "filter pt_isActive (pushTokens w) \<noteq> []" using ne toks by simp
  note R = POST_send_run [OF t b ok ne' toks refl chs]
  have r: "r = fst (POST_send e (Some (JObj kvs)) w)" and w': "w' = snd (POST_send e (Some (JObj kvs)) w)"
    using run by simp_all
  have gb: "gatewayBatches (callsOf w w') = chunks"
    by (simp add: w' R callsOf_def gatewayBatches_simps)
  have lg: "logsOf w w' = map (logRecord e (field (JObj kvs) ''title'') (field (JObj kvs) ''body'')
                   (or_else (field (JObj kvs) ''data'') (JObj []))) (enumerate (nextId w) tokens)"
    by (simp add: w' R logsOf_def)
  have logged: "\<And>x. x \<in> set tokens \<Longrightarrow>
      \<exists>l \<in> set (logsOf w w'). nl_tokenId l = Some (pt_id x) \<and> nl_status l = ''sent''"
    unfolding lg by (rule logRecord_for)
  have errs: "concat (map (\<lambda>i. case expoSend e i (chunks ! i) of Inr t \<Rightarrow> [] | Inl x \<Rightarrow> [x])
                     [0..<length chunks]) = [err]"
    by (rule concat_map_only_one [OF k]) (simp_all add: fails others)
  have tks: "concat (map (\<lambda>i. case expoSend e i (chunks ! i) of Inr t \<Rightarrow> t | Inl x \<Rightarrow> [])
                     [0..<length chunks])
             = concat (map tk (filter (\<lambda>j. j \<noteq> k) [0..<length chunks]))"
    by (rule concat_map_but_one) (simp_all add: fails others)
  have res: "\<exists>res. r = Success res \<and> errors res = Some [err]
              \<and> tickets res = Some (concat (map tk (filter (\<lambda>j. j \<noteq> k) [0..<length chunks])))"
    by (simp add: r R errs tks del: upt_Suc)
  have failed: "\<forall>m \<in> set (chunks ! k). \<exists>x \<in> set tokens. pt_token x = m_to m
             \<and> (\<exists>l \<in> set (logsOf w w'). nl_tokenId l = Some (pt_id x) \<and> nl_status l = ''sent'')"
  proof
    fix m assume m: "m \<in> set (chunks ! k)"
    have "chunks ! k \<in> set chunks" using k by simp
    with m have "m \<in> set (concat chunks)" by auto
    then have "m \<in> set (messagesOf e (JObj kvs) tokens)"
      using chunk_subset [of "chunkSize e" "messagesOf e (JObj kvs) tokens"] chs by blast
    then have "m_to m \<in> set (map m_to (messagesOf e (JObj kvs) tokens))" by simp
    then obtain x where x: "x \<in> set tokens" "pt_token x = m_to m"
      unfolding messagesOf_to by auto
    with logged [OF x(1)] show "\<exists>x \<in> set tokens. pt_token x = m_to m
             \<and> (\<exists>l \<in> set (logsOf w w'). nl_tokenId l = Some (pt_id x) \<and> nl_status l = ''sent'')"
      by blast
  qed
  show ?thesis using gb res logged failed by blast
qed

text \<open>
  C6, as amended. A broadcast with a valid title and body and a non-empty snapshot, whose
  snapshot read and bulk last-used update do not reject (the first and the last call of
  the request; the log writes in between may reject, they are ignored), answers with
  \<open>success = true\<close> whatever the batches did, \<open>sent\<close> is the number of messages built
  (the tokens of the snapshot that pass the format check), \<open>tickets\<close> is the
  concatenation of the tickets of the accepted batches in batch order, and \<open>errors\<close> is
  the list of the errors thrown by the failed batches when there is one, and is absent
  when no batch failed.
\<close>

theorem C6_aggregate_result:
  assumes t: "truthy (field (JObj kvs) ''title'')" and b: "truthy (field (JObj kvs) ''body'')"
      and fm: "\<not> prismaRejects e (length (calls w))"
      and toks: "tokens = filter pt_isActive (pushTokens w)" and ne: "tokens \<noteq> []"
      and chs: "chunks = chunkPushNotifications (chunkSize e) (messagesOf e (JObj kvs) tokens)"
      and um: "\<not> prismaRejects e (length (calls w) + 1 + length chunks + length tokens)"
      and errs: "errs = concat (map (\<lambda>i. case expoSend e i (chunks ! i) of Inr ts \<Rightarrow> [] | Inl x \<Rightarrow> [x])
                                 [0..<length chunks])"
      and run: "POST_send e (Some (JObj kvs)) w = (r, w')"
  shows "gatewayBatches (callsOf w w') = chunks
       \<and> (\<exists>res. r = Success res \<and> send_success res
              \<and> sent res = length (filter (\<lambda>x. isExpoPushToken e (pt_token x)) tokens)
              \<and> tickets res = Some (concat (map (\<lambda>i. case expoSend e i (chunks ! i) of
                                                        Inr ts \<Rightarrow> ts | Inl x \<Rightarrow> [])
                                               [0..<length chunks]))
              \<and> errors res = (if errs = [] then None else Some errs))"
proof -
  note A = POST_send_answer [OF t b fm toks ne chs um]
  have r: "r = fst (POST_send e (Some (JObj kvs)) w)" and w': "w' = snd (POST_send e (Some (JObj kvs)) w)"
    using run by simp_all
  have gb: "gatewayBatches (callsOf w w') = chunks"
    by (simp add: w' A(2) callsOf_def gatewayBatches_simps)
  have lm: "length (messagesOf e (JObj kvs) tokens) = length (filter (\<lambda>x. isExpoPushToken e (pt_token x)) tokens)"
    by (simp add: messagesOf_def)
  show ?thesis
    by (simp add: gb r A(1) errs lm Let_def del: upt_Suc)
qed

lemma device_simps:
  "pt_isActive (device i)" "pt_id (device i) = i"
  "isExpoPushToken env_ok (pt_token (device i))" "isExpoPushToken env_flaky (pt_token (device i))"
  by (simp_all add: device_def env_ok_def env_flaky_def)

lemma hello_fields:
  "field (JObj [(''title'', JStr ''Hello''), (''body'', JStr ''World'')]) ''title'' = Some (JStr ''Hello'')"
  "field (JObj [(''title'', JStr ''Hello''), (''body'', JStr ''World'')]) ''body'' = Some (JStr ''World'')"
  "field (JObj [(''title'', JStr ''Hello''), (''body'', JStr ''World'')]) ''data'' = None"
  "field (JObj [(''title'', JStr ''Hello''), (''body'', JStr ''World'')]) ''badge'' = None"
  "field_default (JObj [(''title'', JStr ''Hello''), (''body'', JStr ''World'')]) ''sound'' d = d"
  "field_default (JObj [(''title'', JStr ''Hello''), (''body'', JStr ''World'')]) ''priority'' d = d"
  by (simp_all add: field_default_def)

lemma chunk_step:
  "0 < B \<Longrightarrow> xs \<noteq> [] \<Longrightarrow>
     chunkPushNotifications B xs = take B xs # chunkPushNotifications B (drop B xs)"
  by (simp add: chunkPushNotifications.simps [of B xs])

lemma chunks5:
  "chunkPushNotifications (chunkSize env_flaky)
     (messagesOf env_flaky (JObj [(''title'', JStr ''Hello''), (''body'', JStr ''World'')])
        [device 0, device 1, device 2, device 3, device 4])
   = [[msg 0, msg 1], [msg 2, msg 3], [msg 4]]"
proof -
  have m: "messagesOf env_flaky (JObj [(''title'', JStr ''Hello''), (''body'', JStr ''World'')])
        [device 0, device 1, device 2, device 3, device 4] = [msg 0, msg 1, msg 2, msg 3, msg 4]"
    unfolding messagesOf_def hello_fields by (simp add: device_simps msg_def or_else_def)
  have B: "chunkSize env_flaky = 2" by (simp add: env_flaky_def)
  show ?thesis
    unfolding m B
    by (simp add: chunk_step chunk_nil)
qed

theorem C2_witness:
  "gatewayBatches (callsOf world5 (snd (POST_send env_flaky (Some request_hello) world5)))
     = [[msg 0, msg 1], [msg 2, msg 3], [msg 4]]
   \<and> (\<exists>res. fst (POST_send env_flaky (Some request_hello) world5) = Success res
         \<and> errors res = Some [ExpoError ''network'']
         \<and> tickets res = Some [TicketOk (m_to (msg 0)), TicketOk (m_to (msg 1)), TicketOk (m_to (msg 4))])
   \<and> (\<exists>l \<in> set (logsOf world5 (snd (POST_send env_flaky (Some request_hello) world5))).
         nl_tokenId l = Some 2 \<and> nl_status l = ''sent'')
   \<and> (\<exists>l \<in> set (logsOf world5 (snd (POST_send env_flaky (Some request_hello) world5))).
         nl_tokenId l = Some 3 \<and> nl_status l = ''sent'')"
proof -
  let ?kvs = "[(''title'', JStr ''Hello''), (''body'', JStr ''World'')]"
  let ?chunks = "[[msg 0, msg 1], [msg 2, msg 3], [msg 4]]"
  let ?tk = "\<lambda>j. map (\<lambda>m. TicketOk (m_to m)) (?chunks ! j)"
  have t: "truthy (field (JObj ?kvs) ''title'')" and b: "truthy (field (JObj ?kvs) ''body'')"
    by simp_all
  have ok: "\<forall>k. \<not> prismaRejects env_flaky k"
    by (simp add: env_flaky_def)
  have toks: "[device 0, device 1, device 2, device 3, device 4] = filter pt_isActive (pushTokens world5)"
    by (simp add: world5_def device_simps)
  have ne: "[device 0, device 1, device 2, device 3, device 4] \<noteq> []" by simp
  have k: "1 < length ?chunks" by simp
  have fails: "expoSend env_flaky 1 (?chunks ! 1) = Inl (ExpoError ''network'')"
    by (simp add: env_flaky_def)
  have others: "\<forall>j < length ?chunks. j \<noteq> 1 \<longrightarrow> expoSend env_flaky j (?chunks ! j) = Inr (?tk j)"
    by (simp add: env_flaky_def)
  have run: "POST_send env_flaky (Some (JObj ?kvs)) world5
      = (fst (POST_send env_flaky (Some request_hello) world5),
         snd (POST_send env_flaky (Some request_hello) world5))"
    by (simp add: request_hello_def)
  have idx: "filter (\<lambda>j. j \<noteq> 1) [0..<length ?chunks] = [0, 2]"
    by (simp add: upt_rec)
  have v: "isExpoPushToken env_flaky (pt_token (device 2))" "isExpoPushToken env_flaky (pt_token (device 3))"
    by (rule device_simps)+
  show ?thesis
    using C2_one_batch_fails [OF t b ok toks ne chunks5 [symmetric] k fails others run] v
    unfolding idx
    by (simp add: device_simps)
qed


lemma chunks5_lossy:
  "chunkPushNotifications (chunkSize env_lossy)
     (messagesOf env_lossy (JObj [(''title'', JStr ''Hello''), (''body'', JStr ''World'')])
        [device 0, device 1, device 2, device 3, device 4])
   = [[msg 0, msg 1], [msg 2, msg 3], [msg 4]]"
proof -
  have "chunkSize env_lossy = chunkSize env_flaky"
    and "isExpoPushToken env_lossy = isExpoPushToken env_flaky"
    by (simp_all add: env_lossy_def)
  then show ?thesis
    unfolding messagesOf_def using chunks5 [unfolded messagesOf_def] by simp
qed

text \<open>
  A run in which the second batch throws and two of the five log writes are rejected.
\<close>

theorem C6_witness:
  "prismaRejects env_lossy 4
   \<and> (\<exists>res. fst (POST_send env_lossy (Some request_hello) world5) = Success res
      \<and> send_success res \<and> sent res = 5
      \<and> tickets res = Some [TicketOk (m_to (msg 0)), TicketOk (m_to (msg 1)), TicketOk (m_to (msg 4))]
      \<and> errors res = Some [ExpoError ''network''])"
proof -
  let ?kvs = "[(''title'', JStr ''Hello''), (''body'', JStr ''World'')]"
  let ?tokens = "[device 0, device 1, device 2, device 3, device 4]"
  let ?chunks = "[[msg 0, msg 1], [msg 2, msg 3], [msg 4]]"
  have t: "truthy (field (JObj ?kvs) ''title'')" and b: "truthy (field (JObj ?kvs) ''body'')"
    by simp_all
  have fm: "\<not> prismaRejects env_lossy (length (calls world5))"
    by (simp add: env_lossy_def world5_def)
  have um: "\<not> prismaRejects env_lossy (length (calls world5) + 1 + length ?chunks + length ?tokens)"
    by (simp add: env_lossy_def world5_def)
  have lost: "prismaRejects env_lossy 4"
    by (simp add: env_lossy_def)
  have toks: "?tokens = filter pt_isActive (pushTokens world5)"
    by (simp add: world5_def device_simps)
  have ne: "?tokens \<noteq> []" by simp
  have run: "POST_send env_lossy (Some (JObj ?kvs)) world5
      = (fst (POST_send env_lossy (Some request_hello) world5),
         snd (POST_send env_lossy (Some request_hello) world5))"
    by (simp add: request_hello_def)
  have idx: "[0..<length ?chunks] = [0, 1, 2]"
    by (simp add: upt_rec)
  have send: "expoSend env_lossy = (\<lambda>k ms. if k = 1 then Inl (ExpoError ''network'')
                                   else Inr (map (\<lambda>m. TicketOk (m_to m)) ms))"
    by (simp add: env_lossy_def env_flaky_def)
  have v: "\<And>i. isExpoPushToken env_lossy (pt_token (device i))"
    by (simp add: env_lossy_def device_simps)
  show ?thesis
    using C6_aggregate_result [OF t b fm toks ne chunks5_lossy [symmetric] um refl run] lost
    unfolding idx send
    by (simp add: v eval_nat_numeral)
qed

text \<open>
  The claim as stated asks for an empty \<open>errors\<close> list when no batch failed. With a
  gateway that accepts the single batch of five messages the key is absent.
\<close>

theorem C6_counterexample:
  "fst (POST_send env_ok (Some request_hello) world5)
     = Success \<lparr>send_success = True, send_message = ''Sent 5 notifications'', sent = 5,
                tickets = Some [TicketOk (m_to (msg 0)), TicketOk (m_to (msg 1)),
                                TicketOk (m_to (msg 2)), TicketOk (m_to (msg 3)),
                                TicketOk (m_to (msg 4))],
                errors = None\<rparr>"
proof -
  let ?kvs = "[(''title'', JStr ''Hello''), (''body'', JStr ''World'')]"
  have t: "truthy (field (JObj ?kvs) ''title'')" and b: "truthy (field (JObj ?kvs) ''body'')"
    by simp_all
  have ok: "\<forall>k. \<not> prismaRejects env_ok k"
    by (simp add: env_ok_def)
  have toks: "[device 0, device 1, device 2, device 3, device 4] = filter pt_isActive (pushTokens world5)"
    by (simp add: world5_def device_simps)
  have ne: "filter pt_isActive (pushTokens world5) \<noteq> []"
    by (simp add: toks [symmetric])
  have m: "messagesOf env_ok (JObj ?kvs) [device 0, device 1, device 2, device 3, device 4]
             = [msg 0, msg 1, msg 2, msg 3, msg 4]"
    unfolding messagesOf_def hello_fields by (simp add: device_simps msg_def or_else_def)
  have c: "chunkPushNotifications (chunkSize env_ok) [msg 0, msg 1, msg 2, msg 3, msg 4]
             = [[msg 0, msg 1, msg 2, msg 3, msg 4]]"
    by (simp add: env_ok_def chunk_step chunk_nil)
  have five: "Suc (Suc (Suc (Suc (Suc 0)))) = 5" by simp
  have d: "digits (Suc (Suc (Suc (Suc (Suc 0))))) = ''5''"
    unfolding five by (simp add: digits.simps [of 5])
  note R = POST_send_run [OF t b ok ne toks m [symmetric] c [symmetric]]
  show ?thesis
    unfolding request_hello_def R fst_conv
    by (simp add: d env_ok_def)
qed

text \<open>
  C1. What the handler does with an active token \<open>x\<close> of the snapshot that fails the
  format check, the database being reachable: no message of any batch is addressed to it,
  \<open>sent\<close> counts only the tokens that pass the check, and no active flag changes; but a
  NotificationLog row with status sent is written for \<open>x\<close>, and the bulk last-used update
  names \<open>x\<close>. The last two are where the handler departs from the claim: the rows and the
  update are built from the whole snapshot, not from the filtered send set.
\<close>

theorem C1_invalid_token_logged_and_touched:
  assumes t: "truthy (field (JObj kvs) ''title'')" and b: "truthy (field (JObj kvs) ''body'')"
      and ok: "\<forall>k. \<not> prismaRejects e k"
      and x: "x \<in> set (pushTokens w)" "pt_isActive x" "\<not> isExpoPushToken e (pt_token x)"
      and run: "POST_send e (Some (JObj kvs)) w = (r, w')"
  shows "pt_token x \<notin> set (map m_to (concat (gatewayBatches (callsOf w w'))))
       \<and> (\<exists>res. r = Success res
              \<and> sent res = length (filter (\<lambda>y. isExpoPushToken e (pt_token y))
                                     (filter pt_isActive (pushTokens w))))
       \<and> map pt_isActive (pushTokens w') = map pt_isActive (pushTokens w)
       \<and> (\<exists>l \<in> set (logsOf w w'). nl_tokenId l = Some (pt_id x) \<and> nl_status l = ''sent'')
       \<and> (\<exists>ids. lastUsedUpdates (callsOf w w') = [ids] \<and> pt_id x \<in> set ids)"
proof -
  define tokens where "tokens = filter pt_isActive (pushTokens w)"
  define chunks where "chunks = chunkPushNotifications (chunkSize e) (messagesOf e (JObj kvs) tokens)"
  have xin: "x \<in> set tokens" using x by (simp add: tokens_def)
  then have "tokens \<noteq> []" by auto
  then have ne: "filter pt_isActive (pushTokens w) \<noteq> []" unfolding tokens_def .
  note R = POST_send_run [OF t b ok ne tokens_def refl chunks_def]
  have r: "r = fst (POST_send e (Some (JObj kvs)) w)" and w': "w' = snd (POST_send e (Some (JObj kvs)) w)"
    using run by simp_all
  have gb: "gatewayBatches (callsOf w w') = chunks"
    by (simp add: w' R callsOf_def gatewayBatches_simps)
  have lu: "lastUsedUpdates (callsOf w w') = [map pt_id tokens]"
    by (simp add: w' R callsOf_def lastUsedUpdates_simps)
  have lg: "logsOf w w' = map (logRecord e (field (JObj kvs) ''title'') (field (JObj kvs) ''body'')
                   (or_else (field (JObj kvs) ''data'') (JObj []))) (enumerate (nextId w) tokens)"
    by (simp add: w' R logsOf_def)
  have "set (map m_to (concat chunks)) \<subseteq> set (map m_to (messagesOf e (JObj kvs) tokens))"
    using chunk_subset [of "chunkSize e" "messagesOf e (JObj kvs) tokens"]
    unfolding chunks_def by auto
  moreover have "pt_token x \<notin> set (map m_to (messagesOf e (JObj kvs) tokens))"
    unfolding messagesOf_to using x(3) by auto
  ultimately have c1: "pt_token x \<notin> set (map m_to (concat (gatewayBatches (callsOf w w'))))"
    unfolding gb by blast
  have c2: "\<exists>res. r = Success res
              \<and> sent res = length (filter (\<lambda>y. isExpoPushToken e (pt_token y))
                                     (filter pt_isActive (pushTokens w)))"
    by (simp add: r R messagesOf_def tokens_def)
  have c3: "map pt_isActive (pushTokens w') = map pt_isActive (pushTokens w)"
    by (simp add: w' R comp_def touch_isActive)
  have c4: "\<exists>l \<in> set (logsOf w w'). nl_tokenId l = Some (pt_id x) \<and> nl_status l = ''sent''"
    unfolding lg using xin by (rule logRecord_for)
  have c5: "\<exists>ids. lastUsedUpdates (callsOf w w') = [ids] \<and> pt_id x \<in> set ids"
    using xin by (simp add: lu)
  show ?thesis using c1 c2 c3 c4 c5 by (intro conjI)
qed


lemma stale_simps:
  "pt_isActive stale_device" "pt_id stale_device = 2"
  "\<not> isExpoPushToken env_ok (pt_token stale_device)"
  by (simp_all add: stale_device_def device_def env_ok_def)

theorem C1_witness:
  "(\<exists>l \<in> set (logsOf world_mixed (snd (POST_send env_ok (Some request_hello) world_mixed))).
       nl_tokenId l = Some 2 \<and> nl_status l = ''sent'')
   \<and> (\<exists>ids. lastUsedUpdates (callsOf world_mixed (snd (POST_send env_ok (Some request_hello) world_mixed)))
              = [ids] \<and> 2 \<in> set ids)
   \<and> (\<exists>res. fst (POST_send env_ok (Some request_hello) world_mixed) = Success res \<and> sent res = 1)"
proof -
  let ?kvs = "[(''title'', JStr ''Hello''), (''body'', JStr ''World'')]"
  have t: "truthy (field (JObj ?kvs) ''title'')" and b: "truthy (field (JObj ?kvs) ''body'')"
    by simp_all
  have ok: "\<forall>k. \<not> prismaRejects env_ok k"
    by (simp add: env_ok_def)
  have x: "stale_device \<in> set (pushTokens world_mixed)"
    by (simp add: world_mixed_def)
  have run: "POST_send env_ok (Some (JObj ?kvs)) world_mixed
      = (fst (POST_send env_ok (Some request_hello) world_mixed),
         snd (POST_send env_ok (Some request_hello) world_mixed))"
    by (simp add: request_hello_def)
  have n: "length (filter (\<lambda>y. isExpoPushToken env_ok (pt_token y))
                     (filter pt_isActive (pushTokens world_mixed))) = 1"
    by (simp add: world_mixed_def device_simps stale_simps)
  show ?thesis
    using C1_invalid_token_logged_and_touched [OF t b ok x stale_simps(1) stale_simps(3) run]
    unfolding n stale_simps(2)
    by simp
qed

section \<open>Registration, error intake and the error-log read path\<close>

lemma deactivated_unmatched:
  "\<forall>t \<in> set ts. pt_token t \<noteq> tok \<Longrightarrow> map (deactivated e (Some (JStr tok))) ts = ts"
  by (induction ts) (simp_all add: deactivated_def)

text \<open>
  C8, as amended. An unregister call that carries a non-empty token string matching no
  stored row, the database answering, is accepted with \<open>success = true\<close> and
  \<open>count = 0\<close>, and the world it returns differs from the one it got only by the
  \<^verbatim>\<open>updateMany\<close> call on record: no row of PushToken changes.
\<close>

theorem C8_unregister_unknown_token:
  assumes tok: "field (JObj kvs) ''expoPushToken'' = Some (JStr tok)" and ne: "tok \<noteq> []"
      and unknown: "\<forall>t \<in> set (pushTokens w). pt_token t \<noteq> tok"
      and ok: "\<not> prismaRejects e (length (calls w))"
  shows "POST_unregister e (Some (JObj kvs)) w =
          (Success \<lparr>unreg_success = True, unreg_message = ''Token unregistered successfully'',
                    count = 0\<rparr>,
           w\<lparr>calls := calls w @ [PushToken_updateMany_isActive (Some (JStr tok))]\<rparr>)"
proof -
  have none: "filter (\<lambda>t. Some (JStr (pt_token t)) = Some (JStr tok)) (pushTokens w) = []"
    using unknown by (simp add: filter_empty_conv)
  have same: "map (deactivated e (Some (JStr tok))) (pushTokens w) = pushTokens w"
    using unknown by (rule deactivated_unmatched)
  have um: "pushToken_updateMany_isActive e (Some (JStr tok)) w =
      (Inr 0, w\<lparr>calls := calls w @ [PushToken_updateMany_isActive (Some (JStr tok))]\<rparr>)"
    using ok unfolding pushToken_updateMany_isActive_def Let_def rejected_def none same
    by (simp add: record_call_def)
  show ?thesis
    unfolding POST_unregister_def using tok ne by (simp add: Let_def um)
qed

theorem C8_witness:
  "POST_unregister env_ok (Some request_unregister) world_idle =
     (Success \<lparr>unreg_success = True, unreg_message = ''Token unregistered successfully'', count = 0\<rparr>,
      world_idle\<lparr>calls := calls world_idle
                           @ [PushToken_updateMany_isActive (Some (JStr ''ExponentPushToken[abc]''))]\<rparr>)"
proof -
  have tok: "field (JObj [(''expoPushToken'', JStr ''ExponentPushToken[abc]'')]) ''expoPushToken''
               = Some (JStr ''ExponentPushToken[abc]'')"
    by simp
  have ne: "''ExponentPushToken[abc]'' \<noteq> []" by simp
  have unknown: "\<forall>t \<in> set (pushTokens world_idle). pt_token t \<noteq> ''ExponentPushToken[abc]''"
    by (simp add: world_idle_def device_def digits.simps [of "Suc 0"])
  have ok: "\<not> prismaRejects env_ok (length (calls world_idle))"
    by (simp add: env_ok_def)
  show ?thesis
    using C8_unregister_unknown_token [OF tok ne unknown ok]
    by (simp add: request_unregister_def)
qed

text \<open>
  The claim as stated covers every token string. The empty string matches no stored row,
  yet the guard \<^verbatim>\<open>if (!expoPushToken)\<close> answers it with status 400.
\<close>

theorem C8_counterexample:
  "POST_unregister env_ok (Some (JObj [(''expoPushToken'', JStr '''')])) world_empty
     = (Failure 400 ''expoPushToken is required'', world_empty)"
  by (simp add: POST_unregister_def)

text \<open>
  C9, as amended. With a database that accepts the write, an error report is accepted and
  stored (one new ErrorLog row, whose key is returned) exactly when \<open>errorType\<close> and
  \<open>message\<close> are both present and truthy, which for a string means non-empty; every
  other request is answered with status 400 and leaves the world as it was, so no row is
  created.
\<close>

theorem C9_error_intake:
  assumes ok: "\<not> prismaRejects e (length (calls w))"
  shows "POST_error e (Some (JObj kvs)) w =
     (if truthy (field (JObj kvs) ''errorType'') \<and> truthy (field (JObj kvs) ''message'')
      then (Success \<lparr>err_success = True, err_id = nextId w\<rparr>,
            w\<lparr>errorLogs := errorLogs w @
                  [\<lparr>el_id = nextId w,
                    el_tokenId = or_else (field (JObj kvs) ''tokenId'') JNull,
                    el_platform = or_else (field (JObj kvs) ''platform'') JNull,
                    el_errorType = field (JObj kvs) ''errorType'',
                    el_message = field (JObj kvs) ''message'',
                    el_stackTrace = or_else (field (JObj kvs) ''stackTrace'') JNull,
                    el_context = or_else (field (JObj kvs) ''context'') JNull,
                    el_appVersion = or_else (field (JObj kvs) ''appVersion'') JNull,
                    el_createdAt = now e\<rparr>],
              nextId := Suc (nextId w),
              calls := calls w @ [ErrorLog_create]\<rparr>)
      else (Failure 400 ''errorType and message are required'', w))"
  unfolding POST_error_def using ok
  by (simp add: Let_def errorLog_create_def rejected_def record_call_def)

theorem C9_witness:
  "POST_error env_ok (Some (JObj [(''errorType'', JStr ''crash''), (''message'', JStr ''boom'')])) world_empty
     = (Success \<lparr>err_success = True, err_id = 1\<rparr>,
        world_empty\<lparr>errorLogs :=
            [\<lparr>el_id = 1, el_tokenId = JNull, el_platform = JNull,
              el_errorType = Some (JStr ''crash''), el_message = Some (JStr ''boom''),
              el_stackTrace = JNull, el_context = JNull, el_appVersion = JNull, el_createdAt = 7\<rparr>],
          nextId := 2, calls := [ErrorLog_create]\<rparr>)"
  using C9_error_intake [of env_ok world_empty "[(''errorType'', JStr ''crash''), (''message'', JStr ''boom'')]"]
  by (simp add: env_ok_def world_empty_def or_else_def)

text \<open>
  The claim as stated accepts a report whenever both fields are present. A request whose
  \<open>errorType\<close> is present but the empty string is refused with status 400.
\<close>

theorem C9_counterexample:
  "POST_error env_ok (Some (JObj [(''errorType'', JStr ''''), (''message'', JStr ''boom'')])) world_empty
     = (Failure 400 ''errorType and message are required'', world_empty)"
  by (simp add: POST_error_def)


lemma parseInt_50: "parseInt ''50'' = Some 50"
  by (simp add: parseInt_def isWhiteSpace_def digitValue_def Let_def)

lemma newest_first:
  "sorted_wrt (\<lambda>a b. el_createdAt b \<le> el_createdAt a)
     (take k (sort_key (\<lambda>x. - int (el_createdAt x)) xs))"
proof -
  have "sorted (map (\<lambda>x. - int (el_createdAt x)) (sort_key (\<lambda>x. - int (el_createdAt x)) xs))"
    by (rule sorted_sort_key)
  then have "sorted_wrt (\<lambda>a b. - int (el_createdAt a) \<le> - int (el_createdAt b))
               (sort_key (\<lambda>x. - int (el_createdAt x)) xs)"
    by (simp add: sorted_map)
  then have "sorted_wrt (\<lambda>a b. el_createdAt b \<le> el_createdAt a)
               (sort_key (\<lambda>x. - int (el_createdAt x)) xs)"
    by simp
  then show ?thesis by (rule sorted_wrt_take)
qed

text \<open>
  C10. On the read path with a reachable database and a \<open>limit\<close> that parses to a number
  \<open>n \<ge> 0\<close> (50 when the parameter is not given): \<open>data\<close> is the first \<open>n\<close> rows, newest
  first, of the rows that pass the \<open>errorType\<close> and \<open>platform\<close> filters, and \<open>stats.total\<close>
  counts the rows that pass them; \<open>stats.errorTypes\<close> has one entry per error type of the
  whole table with the number of all rows of that type, whatever the filters are.
\<close>

theorem C10_error_log_read:
  assumes ok: "\<forall>k. \<not> prismaRejects e k"
      and lim: "parseInt (case nonEmpty limitParam of None \<Rightarrow> ''50'' | Some s \<Rightarrow> s) = Some n"
      and pos: "0 \<le> n"
      and wh: "wh = \<lparr>where_errorType = nonEmpty errorTypeParam, where_platform = nonEmpty platformParam\<rparr>"
      and run: "GET_errors e limitParam errorTypeParam platformParam w = (r, w')"
  shows "\<exists>res. r = Success res
       \<and> data res = take (nat n) (sort_key (\<lambda>x. - int (el_createdAt x))
                                   (filter (matches wh) (errorLogs w)))
       \<and> length (data res) \<le> nat n
       \<and> (limitParam = None \<longrightarrow> length (data res) \<le> 50)
       \<and> (\<forall>x \<in> set (data res). x \<in> set (errorLogs w) \<and> matches wh x)
       \<and> sorted_wrt (\<lambda>a b. el_createdAt b \<le> el_createdAt a) (data res)
       \<and> total (stats res) = length (filter (matches wh) (errorLogs w))
       \<and> errorTypes (stats res)
           = sort_key (\<lambda>g. - int (tc_count g))
               (map (\<lambda>t. \<lparr>tc_type = t,
                           tc_count = length (filter (\<lambda>x. el_errorType x = t) (errorLogs w))\<rparr>)
                  (remdups (map el_errorType (errorLogs w))))
       \<and> (\<forall>g \<in> set (errorTypes (stats res)).
             tc_count g = length (filter (\<lambda>x. el_errorType x = tc_type g) (errorLogs w)))
       \<and> tc_type ` set (errorTypes (stats res)) = el_errorType ` set (errorLogs w)"
proof -
  define rows where "rows = take (nat n) (sort_key (\<lambda>x. - int (el_createdAt x))
                                   (filter (matches wh) (errorLogs w)))"
  define groups where "groups = sort_key (\<lambda>g. - int (tc_count g))
               (map (\<lambda>t. \<lparr>tc_type = t,
                           tc_count = length (filter (\<lambda>x. el_errorType x = t) (errorLogs w))\<rparr>)
                  (remdups (map el_errorType (errorLogs w))))"
  have r: "r = Success \<lparr>get_success = True, data = rows,
                        stats = \<lparr>total = length (filter (matches wh) (errorLogs w)),
                                 errorTypes = groups\<rparr>\<rparr>"
    using run ok lim pos unfolding GET_errors_def wh rows_def groups_def
    by (simp add: Let_def errorLog_findMany_def errorLog_count_def errorLog_groupBy_def
          rejected_def record_call_def takeRows_def)
  have len: "length rows \<le> nat n" by (simp add: rows_def)
  have dflt: "limitParam = None \<longrightarrow> length rows \<le> 50"
  proof
    assume "limitParam = None"
    then have "n = 50" using lim by (simp add: nonEmpty_def parseInt_50)
    then show "length rows \<le> 50" using len by simp
  qed
  have sub: "\<forall>x \<in> set rows. x \<in> set (errorLogs w) \<and> matches wh x"
  proof
    fix x assume "x \<in> set rows"
    then have "x \<in> set (sort_key (\<lambda>x. - int (el_createdAt x)) (filter (matches wh) (errorLogs w)))"
      unfolding rows_def by (rule in_set_takeD)
    then show "x \<in> set (errorLogs w) \<and> matches wh x" by simp
  qed
  have srt: "sorted_wrt (\<lambda>a b. el_createdAt b \<le> el_createdAt a) rows"
    unfolding rows_def by (rule newest_first)
  have cnt: "\<forall>g \<in> set groups.
             tc_count g = length (filter (\<lambda>x. el_errorType x = tc_type g) (errorLogs w))"
    by (auto simp: groups_def)
  have tys: "tc_type ` set groups = el_errorType ` set (errorLogs w)"
    by (force simp: groups_def)
  show ?thesis
    using len dflt sub srt cnt tys
    by (simp add: r rows_def [symmetric] groups_def [symmetric])
qed


theorem C10_witness:
  "\<exists>res. fst (GET_errors env_ok None (Some ''crash'') None world_errors) = Success res
      \<and> data res = [errlog 3 ''crash'' ''android'' 30, errlog 1 ''crash'' ''ios'' 10]
      \<and> total (stats res) = 2
      \<and> errorTypes (stats res) = [\<lparr>tc_type = Some (JStr ''crash''), tc_count = 2\<rparr>,
                                   \<lparr>tc_type = Some (JStr ''network''), tc_count = 1\<rparr>]"
proof -
  have ok: "\<forall>k. \<not> prismaRejects env_ok k"
    by (simp add: env_ok_def)
  have lim: "parseInt (case nonEmpty None of None \<Rightarrow> ''50'' | Some s \<Rightarrow> s) = Some 50"
    by (simp add: nonEmpty_def parseInt_50)
  have pos: "(0::int) \<le> 50" by simp
  have run: "GET_errors env_ok None (Some ''crash'') None world_errors
      = (fst (GET_errors env_ok None (Some ''crash'') None world_errors),
         snd (GET_errors env_ok None (Some ''crash'') None world_errors))"
    by simp
  let ?wh = "\<lparr>where_errorType = nonEmpty (Some ''crash''), where_platform = nonEmpty None\<rparr>"
  from C10_error_log_read [OF ok lim pos refl run] obtain res where
        r: "fst (GET_errors env_ok None (Some ''crash'') None world_errors) = Success res"
    and d: "data res = take (nat 50) (sort_key (\<lambda>x. - int (el_createdAt x))
                                   (filter (matches ?wh) (errorLogs world_errors)))"
    and n: "total (stats res) = length (filter (matches ?wh) (errorLogs world_errors))"
    and g: "errorTypes (stats res)
           = sort_key (\<lambda>g. - int (tc_count g))
               (map (\<lambda>t. \<lparr>tc_type = t,
                           tc_count = length (filter (\<lambda>x. el_errorType x = t) (errorLogs world_errors))\<rparr>)
                  (remdups (map el_errorType (errorLogs world_errors))))"
    by blast
  have d': "data res = [errlog 3 ''crash'' ''android'' 30, errlog 1 ''crash'' ''ios'' 10]"
    unfolding d by (simp add: world_errors_def errlog_def matches_def nonEmpty_def)
  have n': "total (stats res) = 2"
    unfolding n by (simp add: world_errors_def errlog_def matches_def nonEmpty_def)
  have g': "errorTypes (stats res) = [\<lparr>tc_type = Some (JStr ''crash''), tc_count = 2\<rparr>,
                                   \<lparr>tc_type = Some (JStr ''network''), tc_count = 1\<rparr>]"
    unfolding g by (simp add: world_errors_def errlog_def)
  show ?thesis
    using r d' n' g' by blast
qed

lemma find_map_same:
  "(\<And>x. P (f x) = P x) \<Longrightarrow> find P (map f xs) = map_option f (find P xs)"
  by (induction xs) simp_all

lemma find_snoc_new: "find P xs = None \<Longrightarrow> P r \<Longrightarrow> find P (xs @ [r]) = Some r"
  by (induction xs) (simp_all split: if_splits)

lemma reregistered_simps:
  "pt_token (reregistered e p d t) = pt_token t"
  "pt_id (reregistered e p d t) = pt_id t"
  "pt_isActive (reregistered e p d t)"
  by (simp_all add: reregistered_def)

lemma deactivated_simps:
  "pt_token (deactivated e x t) = pt_token t"
  "pt_id (deactivated e x t) = pt_id t"
  by (simp_all add: deactivated_def)

lemma POST_register_existing:
  assumes ok: "\<forall>k. \<not> prismaRejects e k"
      and tok: "field b ''token'' = Some (JStr tok)" and nn: "b \<noteq> JNull"
      and valid: "isExpoPushToken e tok"
      and pl: "field b ''platform'' \<noteq> Some JNull"
      and found: "find (\<lambda>t. pt_token t = tok) (pushTokens w) = Some t0"
  shows "POST_register e (Some b) w =
     (Success \<lparr>reg_success = True, reg_message = ''Token updated successfully'', tokenId = pt_id t0\<rparr>,
      w\<lparr>pushTokens := map (\<lambda>t. if pt_token t = tok
                                  then reregistered e (field b ''platform'') (field b ''deviceInfo'') t
                                  else t) (pushTokens w),
        calls := calls w @ [PushToken_findUnique tok, PushToken_update tok]\<rparr>)"
  unfolding POST_register_def using ok tok nn valid pl found
  by (simp add: Let_def pushToken_findUnique_def pushToken_update_def rejected_def record_call_def
        reregistered_simps)

lemma POST_register_success:
  assumes first: "POST_register e (Some b) w = (Success res, w1)"
      and tok: "field b ''token'' = Some (JStr tok)"
  shows "b \<noteq> JNull \<and> isExpoPushToken e tok \<and> field b ''platform'' \<noteq> Some JNull
       \<and> (\<exists>t1. find (\<lambda>t. pt_token t = tok) (pushTokens w1) = Some t1 \<and> pt_id t1 = tokenId res)"
proof -
  have nn: "b \<noteq> JNull" using first by (auto simp: POST_register_def)
  have valid: "isExpoPushToken e tok"
    using first tok nn by (auto simp: POST_register_def Let_def split: if_splits)
  show ?thesis
  proof (cases "find (\<lambda>t. pt_token t = tok) (pushTokens w)")
    case None
    with first tok nn valid show ?thesis
      by (auto simp: POST_register_def Let_def pushToken_findUnique_def pushToken_create_def
            record_call_def find_snoc_new
          split: if_splits option.splits)
  next
    case (Some t0)
    have same: "\<And>x. (pt_token (if pt_token x = tok
                 then reregistered e (field b ''platform'') (field b ''deviceInfo'') x else x) = tok)
               = (pt_token x = tok)"
      by (simp add: reregistered_simps)
    from Some first tok nn valid show ?thesis
      by (auto simp: POST_register_def Let_def pushToken_findUnique_def pushToken_update_def
            record_call_def reregistered_simps find_map_same [where P = "\<lambda>t. pt_token t = tok", OF same]
          split: if_splits option.splits)
  qed
qed


lemma find_SomeD: "find P xs = Some x \<Longrightarrow> x \<in> set xs \<and> P x"
  by (induction xs) (auto split: if_splits)

lemma unregister_tokens:
  assumes ok: "\<forall>k. \<not> prismaRejects e k"
  shows "pushTokens (snd (POST_unregister e (Some (JObj [(''expoPushToken'', JStr tok)])) w))
           = (if tok = [] then pushTokens w
              else map (deactivated e (Some (JStr tok))) (pushTokens w))"
  using ok
  by (simp add: POST_unregister_def Let_def pushToken_updateMany_isActive_def rejected_def
        record_call_def)

text \<open>
  C7. After a registration of the token string \<open>tok\<close> that succeeded with key
  \<open>tokenId res1\<close>, a second registration of the same string, made directly or after the
  token was unregistered, with a reachable database: it succeeds and returns the same key,
  the table has the same rows with the same keys and token strings (no duplicate is
  created), and the row of \<open>tok\<close> is active, although after the unregistration it was
  not.
\<close>

theorem C7_register_twice:
  assumes ok: "\<forall>k. \<not> prismaRejects e k"
      and tok1: "field req ''token'' = Some (JStr tok)"
      and first: "POST_register e (Some req) w = (Success res1, w1)"
      and between: "w2 = w1
                  \<or> w2 = snd (POST_unregister e (Some (JObj [(''expoPushToken'', JStr tok)])) w1)"
      and tok2: "field req2 ''token'' = Some (JStr tok)" and nn2: "req2 \<noteq> JNull"
      and pl2: "field req2 ''platform'' \<noteq> Some JNull"
      and second: "POST_register e (Some req2) w2 = (r2, w3)"
  shows "(\<exists>res2. r2 = Success res2 \<and> tokenId res2 = tokenId res1)
       \<and> length (pushTokens w3) = length (pushTokens w1)
       \<and> map pt_id (pushTokens w3) = map pt_id (pushTokens w1)
       \<and> map pt_token (pushTokens w3) = map pt_token (pushTokens w1)
       \<and> (\<exists>t \<in> set (pushTokens w3). pt_token t = tok \<and> pt_id t = tokenId res1)
       \<and> (\<forall>t \<in> set (pushTokens w3). pt_token t = tok \<longrightarrow> pt_isActive t)
       \<and> (tok \<noteq> [] \<and> w2 = snd (POST_unregister e (Some (JObj [(''expoPushToken'', JStr tok)])) w1)
            \<longrightarrow> (\<forall>t \<in> set (pushTokens w2). pt_token t = tok \<longrightarrow> \<not> pt_isActive t))"
proof -
  let ?P = "\<lambda>t. pt_token t = tok"
  let ?h = "\<lambda>t. if pt_token t = tok
                 then reregistered e (field req2 ''platform'') (field req2 ''deviceInfo'') t else t"
  from POST_register_success [OF first tok1] obtain t1 where
        valid: "isExpoPushToken e tok"
    and f1: "find ?P (pushTokens w1) = Some t1" and id1: "pt_id t1 = tokenId res1"
    by blast
  have "\<exists>g. pushTokens w2 = map g (pushTokens w1)
           \<and> (\<forall>t. pt_token (g t) = pt_token t \<and> pt_id (g t) = pt_id t)"
  proof (cases "w2 = w1")
    case True
    then have "pushTokens w2 = map (\<lambda>t. t) (pushTokens w1)" by simp
    then show ?thesis by blast
  next
    case False
    with between have "w2 = snd (POST_unregister e (Some (JObj [(''expoPushToken'', JStr tok)])) w1)"
      by simp
    then have eq: "pushTokens w2 = (if tok = [] then pushTokens w1
              else map (deactivated e (Some (JStr tok))) (pushTokens w1))"
      by (simp add: unregister_tokens [OF ok])
    show ?thesis
    proof (cases "tok = []")
      case True
      with eq have "pushTokens w2 = map (\<lambda>t. t) (pushTokens w1)" by simp
      then show ?thesis by blast
    next
      case False
      with eq have "pushTokens w2 = map (deactivated e (Some (JStr tok))) (pushTokens w1)" by simp
      then show ?thesis using deactivated_simps by blast
    qed
  qed
  then obtain g where g: "pushTokens w2 = map g (pushTokens w1)"
      and gt: "\<And>t. pt_token (g t) = pt_token t" and gi: "\<And>t. pt_id (g t) = pt_id t"
    by blast
  have f2: "find ?P (pushTokens w2) = Some (g t1)"
    unfolding g by (simp add: find_map_same [where P = ?P and f = g] gt f1)
  note R = POST_register_existing [OF ok tok2 nn2 valid pl2 f2]
  have r2: "r2 = fst (POST_register e (Some req2) w2)" and w3: "w3 = snd (POST_register e (Some req2) w2)"
    using second by simp_all
  have toks3: "pushTokens w3 = map ?h (map g (pushTokens w1))"
    by (simp add: w3 R g)
  have ht: "\<And>t. pt_token (?h t) = pt_token t" and hi: "\<And>t. pt_id (?h t) = pt_id t"
    by (simp_all add: reregistered_simps)
  have c1: "\<exists>res2. r2 = Success res2 \<and> tokenId res2 = tokenId res1"
    by (simp add: r2 R gi id1)
  have c2: "length (pushTokens w3) = length (pushTokens w1)"
    by (simp add: toks3)
  have c3: "map pt_id (pushTokens w3) = map pt_id (pushTokens w1)"
    by (simp add: toks3 comp_def reregistered_simps gi)
  have c4: "map pt_token (pushTokens w3) = map pt_token (pushTokens w1)"
    by (simp add: toks3 comp_def reregistered_simps gt)
  have in1: "t1 \<in> set (pushTokens w1)" and tk1: "pt_token t1 = tok"
    using find_SomeD [OF f1] by simp_all
  have set3: "set (pushTokens w3) = (\<lambda>t. ?h (g t)) ` set (pushTokens w1)"
    by (simp only: toks3 set_map image_image)
  have "?h (g t1) \<in> (\<lambda>t. ?h (g t)) ` set (pushTokens w1)"
    using in1 by (rule imageI)
  then have m1: "?h (g t1) \<in> set (pushTokens w3)"
    by (simp only: set3)
  have m2: "pt_token (?h (g t1)) = tok"
    by (simp add: reregistered_simps gt tk1)
  have m3: "pt_id (?h (g t1)) = tokenId res1"
    by (simp add: reregistered_simps gi id1)
  define u where "u = ?h (g t1)"
  have "u \<in> set (pushTokens w3)" and "pt_token u = tok" and "pt_id u = tokenId res1"
    using m1 m2 m3 by (simp_all only: u_def)
  then have c5: "\<exists>t \<in> set (pushTokens w3). pt_token t = tok \<and> pt_id t = tokenId res1"
    by blast
  have c6: "\<forall>t \<in> set (pushTokens w3). pt_token t = tok \<longrightarrow> pt_isActive t"
  proof (intro ballI impI)
    fix t assume "t \<in> set (pushTokens w3)" and tt: "pt_token t = tok"
    then have "t \<in> (\<lambda>t. ?h (g t)) ` set (pushTokens w1)" by (simp only: set3)
    then obtain t' where t': "t = ?h (g t')" by (rule imageE)
    have "pt_token (?h (g t')) = pt_token (g t')" by (rule ht)
    with tt t' have "pt_token (g t') = tok" by simp
    with t' have "t = reregistered e (field req2 ''platform'') (field req2 ''deviceInfo'') (g t')"
      by simp
    then show "pt_isActive t" by (simp add: reregistered_simps)
  qed
  have c7: "tok \<noteq> [] \<and> w2 = snd (POST_unregister e (Some (JObj [(''expoPushToken'', JStr tok)])) w1)
            \<longrightarrow> (\<forall>t \<in> set (pushTokens w2). pt_token t = tok \<longrightarrow> \<not> pt_isActive t)"
  proof (intro impI ballI)
    fix t
    assume a: "tok \<noteq> [] \<and> w2 = snd (POST_unregister e (Some (JObj [(''expoPushToken'', JStr tok)])) w1)"
       and tin: "t \<in> set (pushTokens w2)" and tt: "pt_token t = tok"
    from a have ne: "tok \<noteq> []"
      and w2eq: "w2 = snd (POST_unregister e (Some (JObj [(''expoPushToken'', JStr tok)])) w1)"
      by (rule conjunct1, rule conjunct2)
    have "pushTokens (snd (POST_unregister e (Some (JObj [(''expoPushToken'', JStr tok)])) w1))
            = map (deactivated e (Some (JStr tok))) (pushTokens w1)"
      using ne by (simp add: unregister_tokens [OF ok])
    with tin have "t \<in> deactivated e (Some (JStr tok)) ` set (pushTokens w1)"
      by (simp only: w2eq [symmetric] set_map)
    then obtain t' where t': "t = deactivated e (Some (JStr tok)) t'" by (rule imageE)
    have "pt_token t' = tok" using tt by (simp add: t' deactivated_simps)
    then show "\<not> pt_isActive t" by (simp add: t' deactivated_def)
  qed
  show ?thesis using c1 c2 c3 c4 c5 c6 c7 by (intro conjI)
qed

lemma register_first:
  "POST_register env_ok (Some request_register) world_empty =
     (Success \<lparr>reg_success = True, reg_message = ''Token registered successfully'', tokenId = 1\<rparr>,
      world_empty\<lparr>pushTokens :=
          [\<lparr>pt_id = 1, pt_token = ''ExponentPushToken[abc]'', pt_platform = JStr ''ios'',
            pt_deviceInfo = JNull, pt_isActive = True, pt_createdAt = 7, pt_updatedAt = 7,
            pt_lastUsedAt = 7\<rparr>],
        nextId := 2,
        calls := [PushToken_findUnique ''ExponentPushToken[abc]'',
                  PushToken_create ''ExponentPushToken[abc]'']\<rparr>)"
  by (simp add: POST_register_def request_register_def env_ok_def world_empty_def Let_def
        pushToken_findUnique_def pushToken_create_def rejected_def record_call_def)

theorem C7_witness:
  "(\<exists>res2. fst after_again = Success res2 \<and> tokenId res2 = 1)
   \<and> length (pushTokens (snd after_again)) = 1
   \<and> (\<exists>t \<in> set (pushTokens (snd after_again)).
         pt_token t = ''ExponentPushToken[abc]'' \<and> pt_id t = 1 \<and> pt_isActive t)"
proof -
  let ?tok = "''ExponentPushToken[abc]''"
  let ?res1 = "\<lparr>reg_success = True, reg_message = ''Token registered successfully'', tokenId = 1\<rparr>"
  have ok: "\<forall>k. \<not> prismaRejects env_ok k"
    by (simp add: env_ok_def)
  have tok: "field request_register ''token'' = Some (JStr ?tok)"
    by (simp add: request_register_def)
  have first: "POST_register env_ok (Some request_register) world_empty = (Success ?res1, after_register)"
    by (simp add: after_register_def register_first)
  have between: "after_unregister = after_register
     \<or> after_unregister
         = snd (POST_unregister env_ok (Some (JObj [(''expoPushToken'', JStr ?tok)])) after_register)"
    by (simp add: after_unregister_def request_unregister_def)
  have nn: "request_register \<noteq> JNull" and pl: "field request_register ''platform'' \<noteq> Some JNull"
    by (simp_all add: request_register_def)
  have second: "POST_register env_ok (Some request_register) after_unregister
                  = (fst after_again, snd after_again)"
    by (simp add: after_again_def)
  have l1: "length (pushTokens after_register) = 1"
    by (simp add: after_register_def register_first)
  note T = C7_register_twice [OF ok tok first between tok nn pl second]
  from T have a: "\<exists>res2. fst after_again = Success res2 \<and> tokenId res2 = 1"
    by simp
  from T have b: "length (pushTokens (snd after_again)) = 1"
    by (simp add: l1)
  from T obtain t where t: "t \<in> set (pushTokens (snd after_again))" "pt_token t = ?tok"
      "pt_id t = tokenId ?res1"
    by blast
  moreover from T t have "pt_isActive t" by blast
  ultimately have c: "\<exists>t \<in> set (pushTokens (snd after_again)).
         pt_token t = ?tok \<and> pt_id t = 1 \<and> pt_isActive t"
    by auto
  show ?thesis using a b c by (intro conjI)
qed

end
